theory Spec2Isabelle
  imports Complex_Main
begin

section \<open>Configuration (main.py, CONFIGURATION block)\<close>

definition WIFI_START_HOUR :: int where
  "WIFI_START_HOUR = 5"

definition WIFI_END_HOUR :: int where
  "WIFI_END_HOUR = 8"

definition BASE_TIMEZONE_OFFSET :: int where
  "BASE_TIMEZONE_OFFSET = - 8"

section \<open>The clock\<close>

text \<open>
  \<open>time.localtime()\<close> returns the 8-tuple (year, month, mday, hour, minute, second,
  weekday, yearday); the device clock is kept in UTC. The tuple is a record here and
  every function that reads the clock takes it as an argument.
\<close>

record time_tuple =
  tm_year :: int
  tm_month :: int
  tm_mday :: int
  tm_hour :: int
  tm_minute :: int
  tm_second :: int
  tm_weekday :: int
  tm_yearday :: int

text \<open>
  The runtime's \<open>time.mktime\<close> and \<open>time.localtime\<close>, as far as the program uses them:
  seconds since 2000-01-01 00:00:00 of a civil date, and the weekday (0 = Monday ..
  6 = Sunday) of a count of seconds. \<open>days_from_civil\<close> counts days since 1970-01-01 in
  the proleptic Gregorian calendar; 2000-01-01 is day 10957, a Saturday.
\<close>

definition days_from_civil :: "int \<Rightarrow> int \<Rightarrow> int \<Rightarrow> int" where
  "days_from_civil y m d =
     (let y' = (if m \<le> 2 then y - 1 else y);
          era = y' div 400;
          yoe = y' - era * 400;
          doy = (153 * (if m > 2 then m - 3 else m + 9) + 2) div 5 + d - 1;
          doe = yoe * 365 + yoe div 4 - yoe div 100 + doy
      in era * 146097 + doe - 719468)"

definition mktime :: "int \<Rightarrow> int \<Rightarrow> int \<Rightarrow> int \<Rightarrow> int \<Rightarrow> int \<Rightarrow> int" where
  "mktime year month mday hour minute second =
     (days_from_civil year month mday - 10957) * 86400 + hour * 3600 + minute * 60 + second"

definition localtime_weekday :: "int \<Rightarrow> int" where
  "localtime_weekday secs = (secs div 86400 + 5) mod 7"

section \<open>Daylight saving time\<close>

definition get_nth_weekday_of_month :: "int \<Rightarrow> int \<Rightarrow> int \<Rightarrow> int \<Rightarrow> int" where
  "get_nth_weekday_of_month year month weekday n =
     (let first_day = mktime year month 1 0 0 0;
          first_weekday = localtime_weekday first_day;
          days_until_weekday = (weekday - first_weekday) mod 7;
          target_day = 1 + days_until_weekday + (n - 1) * 7
      in target_day)"

definition is_dst :: "int \<Rightarrow> int \<Rightarrow> int \<Rightarrow> bool" where
  "is_dst year month day =
     (let dst_start_day = get_nth_weekday_of_month year 3 6 2;
          dst_end_day = get_nth_weekday_of_month year 11 6 1
      in if month < 3 \<or> month > 11 then False
         else if month > 3 \<and> month < 11 then True
         else if month = 3 then day \<ge> dst_start_day
         else day < dst_end_day)"

definition get_timezone_offset :: "time_tuple \<Rightarrow> int" where
  "get_timezone_offset utc_time =
     (if is_dst (tm_year utc_time) (tm_month utc_time) (tm_mday utc_time)
      then BASE_TIMEZONE_OFFSET + 1
      else BASE_TIMEZONE_OFFSET)"

section \<open>Time management\<close>

text \<open>Python's \<open>%\<close> with a positive modulus is the floored remainder, as \<open>mod\<close> on \<open>int\<close>.\<close>

definition get_local_hour :: "time_tuple \<Rightarrow> int" where
  "get_local_hour utc_time =
     (let offset = get_timezone_offset utc_time;
          local_hour = (tm_hour utc_time + offset) mod 24
      in local_hour)"

text \<open>
  \<open>is_wifi_hours\<close> reads the two window constants of the configuration block;
  \<open>is_within_window\<close> is its body with the window as arguments.
\<close>

definition is_within_window :: "int \<Rightarrow> int \<Rightarrow> int \<Rightarrow> bool" where
  "is_within_window hour start_hour end_hour =
     (if end_hour \<le> start_hour then hour \<ge> start_hour \<or> hour < end_hour
      else start_hour \<le> hour \<and> hour < end_hour)"

definition is_wifi_hours :: "time_tuple \<Rightarrow> bool" where
  "is_wifi_hours utc_time =
     (let hour = get_local_hour utc_time
      in is_within_window hour WIFI_START_HOUR WIFI_END_HOUR)"

section \<open>Strings\<close>

text \<open>
  Python's string methods, as far as the program uses them. A \<open>str\<close> is a \<open>string\<close>
  and a \<open>bytes\<close> value a list of \<open>char\<close> as well.
\<close>

definition startswith :: "string \<Rightarrow> string \<Rightarrow> bool" where
  "startswith s p = (take (length p) s = p)"

text \<open>\<open>s.split(sep)\<close> for a non-empty separator: cut at each occurrence, left to right.\<close>

function split_from :: "string \<Rightarrow> string \<Rightarrow> string \<Rightarrow> string list" where
  "split_from sep cur [] = [cur]"
| "split_from sep cur (c # cs) =
     (if sep \<noteq> [] \<and> startswith (c # cs) sep
      then cur # split_from sep [] (drop (length sep) (c # cs))
      else split_from sep (cur @ [c]) cs)"
  by pat_completeness auto
termination
  by (relation "measure (\<lambda>(sep, cur, s). length s)") auto

definition split :: "string \<Rightarrow> string \<Rightarrow> string list" where
  "split s sep = split_from sep [] s"

text \<open>\<open>s.replace(old, new)\<close> for a non-empty \<open>old\<close>.\<close>

function replace :: "string \<Rightarrow> string \<Rightarrow> string \<Rightarrow> string" where
  "replace [] old new = []"
| "replace (c # cs) old new =
     (if old \<noteq> [] \<and> startswith (c # cs) old
      then new @ replace (drop (length old) (c # cs)) old new
      else c # replace cs old new)"
  by pat_completeness auto
termination
  by (relation "measure (\<lambda>(s, old, new). length s)") auto

text \<open>\<open>s.strip()\<close>: the whitespace characters are space, tab, newline, return, VT and FF.\<close>

definition isspace :: "char \<Rightarrow> bool" where
  "isspace c = (c \<in> set [CHR '' '', CHR 0x09, CHR 0x0A, CHR 0x0D, CHR 0x0B, CHR 0x0C])"

definition strip :: "string \<Rightarrow> string" where
  "strip s = rev (dropWhile isspace (rev (dropWhile isspace s)))"

text \<open>\<open>s.find(sub)\<close>: the lowest index where \<open>sub\<close> occurs, or \<open>-1\<close>.\<close>

fun str_find_from :: "int \<Rightarrow> string \<Rightarrow> string \<Rightarrow> int" where
  "str_find_from i [] sub = (if sub = [] then i else - 1)"
| "str_find_from i (c # cs) sub =
     (if startswith (c # cs) sub then i else str_find_from (i + 1) cs sub)"

definition str_find :: "string \<Rightarrow> string \<Rightarrow> int" where
  "str_find s sub = str_find_from 0 s sub"

section \<open>Numeric conversions of the runtime\<close>

text \<open>
  \<open>float(s)\<close>, \<open>int(s)\<close> and \<open>bytes.decode('utf-8')\<close> are builtins of the interpreter the
  firmware runs on; the program only relies on each either returning a value or raising
  (\<open>ValueError\<close>, \<open>UnicodeDecodeError\<close>). They are collected in a record that the
  functions below take as their first argument: \<open>None\<close> is the raised \<open>ValueError\<close>,
  \<open>Inl e\<close> the raised decode error with its message \<open>e\<close>. The type \<open>'f\<close> is the
  interpreter's float.
\<close>

record 'f runtime =
  to_float :: "string \<Rightarrow> 'f option"
  to_int :: "string \<Rightarrow> int option"
  decode :: "string \<Rightarrow> string + string"

text \<open>
  A concrete runtime for evaluating examples: signed decimal literals, read exactly (a
  float is the rational its literal denotes), and ASCII text. On the strings of the
  examples it agrees with the interpreter: \<open>float\<close> and \<open>int\<close> accept surrounding
  whitespace and a sign, \<open>int\<close> rejects a decimal point, and both reject text that is
  no number.
\<close>

definition isdigit :: "char \<Rightarrow> bool" where
  "isdigit c = (48 \<le> (of_char c :: nat) \<and> (of_char c :: nat) \<le> 57)"

definition digits_value :: "string \<Rightarrow> nat" where
  "digits_value ds = foldl (\<lambda>n c. 10 * n + (of_char c - 48)) 0 ds"

definition unsigned_int :: "string \<Rightarrow> int option" where
  "unsigned_int ds = (if ds \<noteq> [] \<and> list_all isdigit ds then Some (int (digits_value ds)) else None)"

definition unsigned_dec :: "string \<Rightarrow> rat option" where
  "unsigned_dec s =
     (let ip = takeWhile isdigit s; rest = dropWhile isdigit s in
      if ip = [] then None
      else if rest = [] then Some (of_nat (digits_value ip))
      else if hd rest = CHR ''.'' \<and> list_all isdigit (tl rest)
      then Some (of_nat (digits_value (ip @ tl rest)) / 10 ^ length (tl rest))
      else None)"

definition signed :: "(string \<Rightarrow> 'a::uminus option) \<Rightarrow> string \<Rightarrow> 'a option" where
  "signed f s =
     (case strip s of
        [] \<Rightarrow> None
      | c # cs \<Rightarrow>
          if c = CHR ''-'' then map_option uminus (f cs)
          else if c = CHR ''+'' then f cs
          else f (c # cs))"

definition decode_ascii :: "string \<Rightarrow> string + string" where
  "decode_ascii bs =
     (if list_all (\<lambda>c. of_char c < (128::nat)) bs then Inr bs else Inl ''invalid start byte'')"

definition decimal_runtime :: "rat runtime" where
  "decimal_runtime =
     \<lparr>to_float = signed unsigned_dec, to_int = signed unsigned_int, decode = decode_ascii\<rparr>"

section \<open>Results of an exchange and status parsing\<close>

text \<open>The dict returned by \<open>send_command\<close> and the dict returned by \<open>parse_status\<close>.\<close>

record cmd_result =
  success :: bool
  response :: "string list"
  error :: "string option"

record 'f status =
  temperature :: 'f
  setpoint :: 'f
  duty_cycle :: int
  state :: string
  raw :: string

text \<open>
  The body of the first loop of \<open>parse_status\<close> for one line: \<open>None\<close> when the loop
  goes on to the next line (no prefix, fewer than five parts, or a \<open>ValueError\<close> caught
  by the \<open>except\<close> clause).
\<close>

definition parse_status_line :: "'f runtime \<Rightarrow> string \<Rightarrow> 'f status option" where
  "parse_status_line R line =
     (if startswith line ''>>STATUS'' \<or> startswith line ''STATUS'' then
        (let status_line = replace line ''>>'' [];
             parts = split status_line '',''
         in if length parts \<ge> 5 then
              (case to_float R (parts ! 1) of
                 None \<Rightarrow> None
               | Some t \<Rightarrow>
                  (case to_float R (parts ! 2) of
                     None \<Rightarrow> None
                   | Some sp \<Rightarrow>
                      (case to_int R (parts ! 3) of
                         None \<Rightarrow> None
                       | Some d \<Rightarrow>
                           Some \<lparr>temperature = t, setpoint = sp, duty_cycle = d,
                                 state = parts ! 4, raw = line\<rparr>)))
            else None)
      else None)"

fun parse_status_lines :: "'f runtime \<Rightarrow> string list \<Rightarrow> 'f status option" where
  "parse_status_lines R [] = None"
| "parse_status_lines R (line # rest) =
     (case parse_status_line R line of
        Some st \<Rightarrow> Some st
      | None \<Rightarrow> parse_status_lines R rest)"

text \<open>The second \<open>try\<close> block: the line as \<open>temp,duty,setpoint\<close>.\<close>

definition parse_csv_line :: "'f runtime \<Rightarrow> string \<Rightarrow> 'f status option" where
  "parse_csv_line R line =
     (let parts = split line '',''
      in if length parts \<ge> 3 then
           (case to_float R (parts ! 0) of
              None \<Rightarrow> None
            | Some t \<Rightarrow>
               (case to_int R (parts ! 1) of
                  None \<Rightarrow> None
                | Some d \<Rightarrow>
                   (case to_float R (parts ! 2) of
                      None \<Rightarrow> None
                    | Some sp \<Rightarrow>
                        Some \<lparr>temperature = t, setpoint = sp, duty_cycle = d,
                              state = ''unknown'', raw = line\<rparr>)))
         else None)"

definition parse_status :: "'f runtime \<Rightarrow> cmd_result \<Rightarrow> 'f status option" where
  "parse_status R response_dict =
     (if response response_dict = [] then None
      else
        (let response_lines = response response_dict
         in case parse_status_lines R response_lines of
              Some st \<Rightarrow> Some st
            | None \<Rightarrow>
                if response_lines \<noteq> [] then parse_csv_line R (last response_lines)
                else None))"

section \<open>The serial port\<close>

text \<open>
  The UART driver object, as the program uses it. \<open>rxbuf\<close> holds the bytes received and
  not yet read. \<open>feed\<close> is what the line and the driver do from now on: each driver
  call (\<open>any\<close>, \<open>read\<close>, \<open>readline\<close>, \<open>write\<close>) takes the next event, \<open>Arrive bs\<close>
  (the bytes \<open>bs\<close> have landed in the buffer by the time of the call) or \<open>Fault e\<close> (the
  call raises an exception with message \<open>e\<close>); when the feed is used up nothing more
  arrives. \<open>txroom\<close> is the number of bytes a \<open>write\<close> accepts. \<open>oplog\<close> records the
  driver calls in the order they are made.
\<close>

datatype uart_op = OpAny | OpRead | OpWrite string | OpReadline

datatype uart_event = Arrive string | Fault string

record uart =
  rxbuf :: string
  feed :: "uart_event list"
  txroom :: nat
  oplog :: "uart_op list"

definition driver_call :: "uart_op \<Rightarrow> uart \<Rightarrow> uart \<times> string option" where
  "driver_call op u =
     (let u1 = u\<lparr>oplog := oplog u @ [op]\<rparr> in
      case feed u of
        [] \<Rightarrow> (u1, None)
      | Arrive bs # rest \<Rightarrow> (u1\<lparr>rxbuf := rxbuf u @ bs, feed := rest\<rparr>, None)
      | Fault e # rest \<Rightarrow> (u1\<lparr>feed := rest\<rparr>, Some e))"

text \<open>\<open>uart.any()\<close>: the number of bytes waiting.\<close>

definition uart_any :: "uart \<Rightarrow> uart \<times> (string + nat)" where
  "uart_any u =
     (case driver_call OpAny u of
        (u1, Some e) \<Rightarrow> (u1, Inl e)
      | (u1, None) \<Rightarrow> (u1, Inr (length (rxbuf u1))))"

text \<open>\<open>uart.read()\<close>: takes everything that is waiting.\<close>

definition uart_read :: "uart \<Rightarrow> uart \<times> (string + string)" where
  "uart_read u =
     (case driver_call OpRead u of
        (u1, Some e) \<Rightarrow> (u1, Inl e)
      | (u1, None) \<Rightarrow> (u1\<lparr>rxbuf := []\<rparr>, Inr (rxbuf u1)))"

text \<open>
  \<open>uart.readline()\<close>: the bytes up to and including the first newline; when no newline
  is waiting, what is there (the driver's read timeout has passed); \<open>None\<close> when nothing
  is waiting. \<open>take_line\<close> gives the line and what stays in the buffer.
\<close>

definition take_line :: "string \<Rightarrow> string option \<times> string" where
  "take_line b =
     (let line = takeWhile (\<lambda>c. c \<noteq> CHR 0x0A) b;
          rest = dropWhile (\<lambda>c. c \<noteq> CHR 0x0A) b
      in if b = [] then (None, [])
         else case rest of
                [] \<Rightarrow> (Some line, [])
              | nl # rest' \<Rightarrow> (Some (line @ [nl]), rest'))"

definition uart_readline :: "uart \<Rightarrow> uart \<times> (string + string option)" where
  "uart_readline u =
     (case driver_call OpReadline u of
        (u1, Some e) \<Rightarrow> (u1, Inl e)
      | (u1, None) \<Rightarrow>
          (case take_line (rxbuf u1) of
             (line, rest) \<Rightarrow> (u1\<lparr>rxbuf := rest\<rparr>, Inr line)))"

text \<open>\<open>uart.write(buf)\<close>: the number of bytes written.\<close>

definition uart_write :: "string \<Rightarrow> uart \<Rightarrow> uart \<times> (string + nat)" where
  "uart_write buf u =
     (case driver_call (OpWrite buf) u of
        (u1, Some e) \<Rightarrow> (u1, Inl e)
      | (u1, None) \<Rightarrow> (u1, Inr (min (length buf) (txroom u1))))"

section \<open>UART communication\<close>

text \<open>
  The loop \<open>while uart.any(): uart.read()\<close>. One round either leaves the loop, with the
  exception raised if any (\<open>Inl\<close>), or goes round again (\<open>Inr\<close>).
\<close>

definition flush_round :: "uart \<Rightarrow> (uart \<times> string option) + uart" where
  "flush_round u =
     (case uart_any u of
        (u1, Inl e) \<Rightarrow> Inl (u1, Some e)
      | (u1, Inr n) \<Rightarrow>
          if n = 0 then Inl (u1, None)
          else (case uart_read u1 of
                  (u2, Inl e) \<Rightarrow> Inl (u2, Some e)
                | (u2, Inr data) \<Rightarrow> Inr u2))"

definition flush_measure :: "uart \<Rightarrow> nat" where
  "flush_measure u = length (feed u) + (if rxbuf u = [] then 0 else 1)"

function flush_rx :: "uart \<Rightarrow> uart \<times> string option" where
  "flush_rx u = (case flush_round u of Inl r \<Rightarrow> r | Inr u' \<Rightarrow> flush_rx u')"
  by pat_completeness auto
termination
proof (relation "measure flush_measure")
  show "wf (measure flush_measure)" by simp
next
  fix u u'
  assume "flush_round u = Inr u'"
  then show "(u', u) \<in> measure flush_measure"
    by (auto simp: flush_round_def uart_any_def uart_read_def driver_call_def
        flush_measure_def Let_def
        split: list.splits uart_event.splits prod.splits sum.splits if_splits option.splits)
qed

declare flush_rx.simps [simp del]

text \<open>
  The read loop of \<open>send_command\<close>. The wall clock is the first argument: the number of
  times the loop condition \<open>time.time() - start_time < timeout\<close> still holds, so the
  loop ends by timeout when it reaches 0. The loop ends in one of three ways: a
  \<open>return result\<close> from inside with \<open>result['error']\<close> set (\<open>Returned\<close>), an exception
  that reaches the outer handler (\<open>Raised\<close>), or normally, by \<open>break\<close> or timeout, with
  the accumulated lines and \<open>found_completion\<close> (\<open>Finished\<close>).
\<close>

datatype read_outcome = Returned string | Raised string | Finished "string list" bool

definition is_completion :: "string \<Rightarrow> bool" where
  "is_completion decoded = (startswith decoded ''<<OK'' \<or> startswith decoded ''<<ERROR'')"

fun read_loop :: "'f runtime \<Rightarrow> nat \<Rightarrow> string list \<Rightarrow> uart \<Rightarrow> uart \<times> read_outcome" where
  "read_loop R 0 response_lines u = (u, Finished response_lines False)"
| "read_loop R (Suc n) response_lines u =
     (case uart_any u of
        (u1, Inl e) \<Rightarrow> (u1, Raised e)
      | (u1, Inr k) \<Rightarrow>
          if k > 0 then
            (case uart_readline u1 of
               (u2, Inl e) \<Rightarrow> (u2, Returned (''Read error: '' @ e))
             | (u2, Inr None) \<Rightarrow> read_loop R n response_lines u2
             | (u2, Inr (Some line)) \<Rightarrow>
                 if line = [] then read_loop R n response_lines u2
                 else (case decode R line of
                         Inl e \<Rightarrow> (u2, Returned (''Decode error: '' @ e))
                       | Inr text \<Rightarrow>
                           (let decoded = strip text;
                                response_lines' = response_lines @ [decoded]
                            in if is_completion decoded
                               then (u2, Finished response_lines' True)
                               else read_loop R n response_lines' u2)))
          else read_loop R n response_lines u1)"

text \<open>\<open>str(n)\<close> for a count of bytes, in the \<open>Write incomplete\<close> message.\<close>

fun str_nat :: "nat \<Rightarrow> string" where
  "str_nat n =
     (if n < 10 then [char_of (48 + n)]
      else str_nat (n div 10) @ [char_of (48 + n mod 10)])"

declare str_nat.simps [simp del]

definition is_command_response :: "string \<Rightarrow> bool" where
  "is_command_response line = (startswith line ''<<'' \<or> startswith line ''>>'')"

text \<open>The part of \<open>send_command\<close> after the read loop (\<open># Check results\<close>).\<close>

definition check_results :: "string list \<Rightarrow> bool \<Rightarrow> cmd_result" where
  "check_results response_lines found_completion =
     (let result = \<lparr>success = False, response = [], error = None\<rparr> in
      if response_lines = [] then result\<lparr>error := Some ''No response received''\<rparr>
      else
        (let command_response_lines = filter is_command_response response_lines;
             result1 = (if \<not> found_completion
                        then result\<lparr>error := Some ''Response incomplete (timeout)''\<rparr>
                        else result\<lparr>success := True\<rparr>);
             result2 = result1\<lparr>response :=
                         (if command_response_lines \<noteq> [] then command_response_lines
                          else response_lines)\<rparr>
         in case List.find (\<lambda>line. startswith line ''<<ERROR'') command_response_lines of
              None \<Rightarrow> result2
            | Some line \<Rightarrow> result2\<lparr>error := Some line, success := False\<rparr>))"

text \<open>
  \<open>send_command(cmd, timeout, verbose)\<close>. The timeout is the number of polls of the read
  loop; \<open>verbose\<close> only prints. \<open>time.sleep\<close> does not touch the port. The encoded
  command is the command text itself, a \<open>str\<close> standing for its UTF-8 bytes.
\<close>

definition uart_exception :: "string \<Rightarrow> cmd_result" where
  "uart_exception e =
     \<lparr>success = False, response = [], error = Some (''UART exception: '' @ e)\<rparr>"

definition send_command :: "'f runtime \<Rightarrow> string \<Rightarrow> nat \<Rightarrow> uart \<Rightarrow> uart \<times> cmd_result" where
  "send_command R cmd timeout u =
     (let result = \<lparr>success = False, response = [], error = None\<rparr>;
          cmd_clean = strip cmd
      in if cmd_clean = [] then (u, result\<lparr>error := Some ''Empty command''\<rparr>)
         else
           (let cmd_bytes = cmd_clean @ [CHR 0x0A] in
            case flush_rx u of
              (u1, Some e) \<Rightarrow> (u1, uart_exception e)
            | (u1, None) \<Rightarrow>
                (case uart_write cmd_bytes u1 of
                   (u2, Inl e) \<Rightarrow> (u2, uart_exception e)
                 | (u2, Inr bytes_written) \<Rightarrow>
                     if bytes_written \<noteq> length cmd_bytes
                     then (u2, result\<lparr>error := Some (''Write incomplete: '' @
                             str_nat bytes_written @ ''/'' @ str_nat (length cmd_bytes) @
                             '' bytes'')\<rparr>)
                     else
                       (case read_loop R timeout [] u2 of
                          (u3, Returned e) \<Rightarrow> (u3, result\<lparr>error := Some e\<rparr>)
                        | (u3, Raised e) \<Rightarrow> (u3, uart_exception e)
                        | (u3, Finished response_lines found_completion) \<Rightarrow>
                            (u3, check_results response_lines found_completion)))))"

text \<open>A port for examples: what is buffered, what will arrive, room for 64 bytes.\<close>

definition port :: "string \<Rightarrow> uart_event list \<Rightarrow> uart" where
  "port buffered events = \<lparr>rxbuf = buffered, feed = events, txroom = 64, oplog = []\<rparr>"

section \<open>Web server\<close>

text \<open>
  What \<open>json.dumps\<close> is given: a JSON value. An object is the list of its members; the
  order of the members carries no meaning.
\<close>

datatype 'f json =
    JNull
  | JBool bool
  | JInt int
  | JFloat 'f
  | JStr string
  | JList "'f json list"
  | JObj "(string \<times> 'f json) list"

datatype 'f payload = Html string | Json "'f json"

text \<open>
  What the server hands to \<open>cl.send\<close> or \<open>cl.sendall\<close> for one request: the status line
  and headers, then the body.
\<close>

record 'f http_response =
  header_text :: string
  payload :: "'f payload"

definition crlf :: string where
  "crlf = [CHR 0x0D, CHR 0x0A]"

definition html_header :: string where
  "html_header =
     ''HTTP/1.1 200 OK'' @ crlf @ ''Content-Type: text/html; charset=utf-8'' @ crlf @
     ''Connection: close'' @ crlf @ crlf"

definition json_header :: string where
  "json_header =
     ''HTTP/1.1 200 OK'' @ crlf @ ''Content-Type: application/json; charset=utf-8'' @ crlf @
     ''Access-Control-Allow-Origin: *'' @ crlf @ ''Connection: close'' @ crlf @ crlf"

text \<open>The dict returned by \<open>parse_status\<close>, as a JSON object.\<close>

definition status_json :: "'f status \<Rightarrow> 'f json" where
  "status_json st =
     JObj [(''temperature'', JFloat (temperature st)), (''setpoint'', JFloat (setpoint st)),
           (''duty_cycle'', JInt (duty_cycle st)), (''state'', JStr (state st)),
           (''raw'', JStr (raw st))]"

definition no_status_json :: "'f json" where
  "no_status_json =
     JObj [(''temperature'', JNull), (''setpoint'', JInt 0), (''duty_cycle'', JInt 0),
           (''state'', JStr ''unknown'')]"

definition cmd_json :: "cmd_result \<Rightarrow> 'f json" where
  "cmd_json resp =
     JObj [(''success'', JBool (success resp)), (''response'', JList (map JStr (response resp)))]"

text \<open>
  The handling of one request in \<open>web_server_scheduled\<close>, from \<open>lines = request.split\<close>
  to the send: the port afterwards and what is sent, \<open>None\<close> when nothing is sent
  before the connection is closed. \<open>html\<close> is the page \<open>HTML\<close>, \<open>timeout\<close> the default
  timeout of \<open>send_command\<close>. A failure of the send itself is caught and printed by the
  server and is not modelled.
\<close>

definition handle_request ::
  "'f runtime \<Rightarrow> string \<Rightarrow> nat \<Rightarrow> string \<Rightarrow> uart \<Rightarrow> uart \<times> 'f http_response option" where
  "handle_request R html timeout request u =
     (let lines = split request crlf in
      if length lines > 0 then
        (let request_line = lines ! 0;
             parts = split request_line '' ''
         in if length parts \<ge> 2 then
              (let method = parts ! 0; path = parts ! 1 in
               if method = ''GET'' \<and> path = ''/'' then
                 (u, Some \<lparr>header_text = html_header, payload = Html html\<rparr>)
               else if method = ''GET'' \<and> path = ''/status'' then
                 (case send_command R ''status'' timeout u of
                    (u', resp) \<Rightarrow>
                      (let status = parse_status R resp in
                       (u', Some \<lparr>header_text = json_header,
                                 payload = Json (case status of
                                                   Some st \<Rightarrow> status_json st
                                                 | None \<Rightarrow> no_status_json)\<rparr>)))
               else if method = ''POST'' \<and> path = ''/cmd'' then
                 (let body_start = str_find request (crlf @ crlf) in
                  if body_start \<noteq> - 1 then
                    (let command = strip (drop (nat (body_start + 4)) request) in
                     case send_command R command timeout u of
                       (u', resp) \<Rightarrow>
                         (u', Some \<lparr>header_text = json_header,
                                   payload = Json (cmd_json resp)\<rparr>))
                  else (u, None))
               else (u, None))
            else (u, None))
      else (u, None))"

section \<open>Properties of the schedule engine\<close>

lemma days_from_civil_day: "days_from_civil y m d = days_from_civil y m 1 + (d - 1)"
  by (simp add: days_from_civil_def Let_def)

lemma mktime_day: "mktime y m d 0 0 0 = mktime y m 1 0 0 0 + (d - 1) * 86400"
  unfolding mktime_def by (subst days_from_civil_day) (simp add: algebra_simps)

lemma weekday_shift: "localtime_weekday (s + k * 86400) = (localtime_weekday s + k) mod 7"
proof -
  have "(s + k * 86400) div 86400 = s div 86400 + k" by simp
  then show ?thesis
    unfolding localtime_weekday_def by (simp add: mod_simps add.commute add.left_commute)
qed

lemma weekday_of_day:
  "localtime_weekday (mktime y m d 0 0 0) =
     (localtime_weekday (mktime y m 1 0 0 0) + (d - 1)) mod 7"
  by (simp only: mktime_day [of y m d] weekday_shift)

lemma nth_weekday_rule:
  "get_nth_weekday_of_month y m w n =
     1 + (w - localtime_weekday (mktime y m 1 0 0 0)) mod 7 + (n - 1) * 7"
  by (simp add: get_nth_weekday_of_month_def Let_def)

lemma nth_weekday_range:
  "1 + (n - 1) * 7 \<le> get_nth_weekday_of_month y m w n \<and>
   get_nth_weekday_of_month y m w n \<le> n * 7"
proof -
  have "0 \<le> (w - localtime_weekday (mktime y m 1 0 0 0)) mod 7"
    and "(w - localtime_weekday (mktime y m 1 0 0 0)) mod 7 < 7"
    by simp_all
  then show ?thesis
    unfolding nth_weekday_rule by (simp add: algebra_simps)
qed

lemma mod7_cancel: "(f + ((w - f) mod 7 + (n - 1) * 7)) mod 7 = w mod (7::int)"
proof -
  have "(f + ((w - f) mod 7 + (n - 1) * 7)) mod 7 = ((f + (w - f) mod 7) + (n - 1) * 7) mod 7"
    by (simp only: add.assoc)
  also have "\<dots> = (f + (w - f) mod 7) mod 7"
    by (rule mod_mult_self1)
  also have "\<dots> = (f + (w - f)) mod 7"
    by (rule mod_add_right_eq)
  also have "\<dots> = w mod 7" by simp
  finally show ?thesis .
qed

lemma nth_weekday_hits:
  assumes "0 \<le> w" and "w < 7"
  shows "localtime_weekday (mktime y m (get_nth_weekday_of_month y m w n) 0 0 0) = w"
proof -
  let ?f = "localtime_weekday (mktime y m 1 0 0 0)"
  have "get_nth_weekday_of_month y m w n - 1 = (w - ?f) mod 7 + (n - 1) * 7"
    unfolding nth_weekday_rule by simp
  then have "localtime_weekday (mktime y m (get_nth_weekday_of_month y m w n) 0 0 0) =
      (?f + ((w - ?f) mod 7 + (n - 1) * 7)) mod 7"
    by (simp only: weekday_of_day [of y m "get_nth_weekday_of_month y m w n"])
  also have "\<dots> = w mod 7" by (rule mod7_cancel)
  also have "\<dots> = w" using assms by simp
  finally show ?thesis .
qed

text \<open>
  C5. For a local hour \<open>h\<close> and a window \<open>(s, e)\<close>: when \<open>s < e\<close> the in-window check
  holds exactly when \<open>s \<le> h < e\<close>, so it holds at \<open>h = s\<close> and fails at \<open>h = e\<close>; when
  \<open>e \<le> s\<close> it holds exactly when \<open>h \<ge> s\<close> or \<open>h < e\<close>, so a window with \<open>s = e\<close> is
  always active. \<open>is_wifi_hours\<close> is this check at the local hour and the configured
  window.
\<close>

theorem is_within_window_spec:
  "(s < e \<longrightarrow> (is_within_window h s e \<longleftrightarrow> s \<le> h \<and> h < e)) \<and>
   (e \<le> s \<longrightarrow> (is_within_window h s e \<longleftrightarrow> h \<ge> s \<or> h < e)) \<and>
   (s < e \<longrightarrow> is_within_window s s e \<and> \<not> is_within_window e s e) \<and>
   is_within_window h s s \<and>
   is_wifi_hours t = is_within_window (get_local_hour t) WIFI_START_HOUR WIFI_END_HOUR"
  by (auto simp: is_within_window_def is_wifi_hours_def Let_def)

theorem is_within_window_spec_witness:
  "is_within_window 5 5 8 \<and> is_within_window 7 5 8 \<and> \<not> is_within_window 8 5 8 \<and>
   \<not> is_within_window 4 5 8 \<and> is_within_window 23 22 6 \<and> is_within_window 3 22 6 \<and>
   \<not> is_within_window 6 22 6 \<and> is_within_window 11 9 9"
  using is_within_window_spec [of 5 8 5] is_within_window_spec [of 5 8 7]
    is_within_window_spec [of 5 8 4] is_within_window_spec [of 22 6 23]
    is_within_window_spec [of 22 6 3] is_within_window_spec [of 22 6 6]
    is_within_window_spec [of 9 9 11]
  by simp

text \<open>
  C6. The DST predicate is false before March and after November and true from April
  through October; in March it holds exactly from the day computed for the second
  Sunday on, in November exactly before the day computed for the first Sunday. The day
  is computed by the rule \<open>1 + ((weekday - first_weekday) mod 7) + (n - 1) * 7\<close> from
  the weekday of the 1st of the month; the day so computed falls on the requested
  weekday and in the \<open>n\<close>-th week of the month.
\<close>

theorem is_dst_spec:
  "(month < 3 \<or> month > 11 \<longrightarrow> \<not> is_dst year month day) \<and>
   (3 < month \<and> month < 11 \<longrightarrow> is_dst year month day) \<and>
   (is_dst year 3 day \<longleftrightarrow> day \<ge> get_nth_weekday_of_month year 3 6 2) \<and>
   (is_dst year 11 day \<longleftrightarrow> day < get_nth_weekday_of_month year 11 6 1) \<and>
   get_nth_weekday_of_month year m w n =
     1 + (w - localtime_weekday (mktime year m 1 0 0 0)) mod 7 + (n - 1) * 7 \<and>
   8 \<le> get_nth_weekday_of_month year 3 6 2 \<and> get_nth_weekday_of_month year 3 6 2 \<le> 14 \<and>
   localtime_weekday (mktime year 3 (get_nth_weekday_of_month year 3 6 2) 0 0 0) = 6 \<and>
   1 \<le> get_nth_weekday_of_month year 11 6 1 \<and> get_nth_weekday_of_month year 11 6 1 \<le> 7 \<and>
   localtime_weekday (mktime year 11 (get_nth_weekday_of_month year 11 6 1) 0 0 0) = 6"
proof -
  have a: "month < 3 \<or> month > 11 \<longrightarrow> \<not> is_dst year month day"
    by (simp add: is_dst_def Let_def)
  have b: "3 < month \<and> month < 11 \<longrightarrow> is_dst year month day"
    by (simp add: is_dst_def Let_def)
  have c: "is_dst year 3 day \<longleftrightarrow> day \<ge> get_nth_weekday_of_month year 3 6 2"
    by (simp add: is_dst_def Let_def)
  have d: "is_dst year 11 day \<longleftrightarrow> day < get_nth_weekday_of_month year 11 6 1"
    by (simp add: is_dst_def Let_def)
  have e: "8 \<le> get_nth_weekday_of_month year 3 6 2 \<and> get_nth_weekday_of_month year 3 6 2 \<le> 14"
    using nth_weekday_range [of 2 year 3 6] by simp
  have f: "1 \<le> get_nth_weekday_of_month year 11 6 1 \<and> get_nth_weekday_of_month year 11 6 1 \<le> 7"
    using nth_weekday_range [of 1 year 11 6] by simp
  have g: "localtime_weekday (mktime year 3 (get_nth_weekday_of_month year 3 6 2) 0 0 0) = 6"
    by (rule nth_weekday_hits) simp_all
  have h: "localtime_weekday (mktime year 11 (get_nth_weekday_of_month year 11 6 1) 0 0 0) = 6"
    by (rule nth_weekday_hits) simp_all
  from a b c d e f g h nth_weekday_rule [of year m w n] show ?thesis by blast
qed

theorem is_dst_spec_witness:
  "\<not> is_dst 2024 2 15 \<and> \<not> is_dst 2024 12 25 \<and> is_dst 2024 7 4 \<and>
   get_nth_weekday_of_month 2024 3 6 2 = 10 \<and> \<not> is_dst 2024 3 9 \<and> is_dst 2024 3 10 \<and>
   get_nth_weekday_of_month 2024 11 6 1 = 3 \<and> is_dst 2024 11 2 \<and> \<not> is_dst 2024 11 3"
proof -
  have s: "get_nth_weekday_of_month 2024 3 6 2 = 10"
    by (simp add: get_nth_weekday_of_month_def mktime_def days_from_civil_def
        localtime_weekday_def Let_def)
  have e: "get_nth_weekday_of_month 2024 11 6 1 = 3"
    by (simp add: get_nth_weekday_of_month_def mktime_def days_from_civil_def
        localtime_weekday_def Let_def)
  have feb: "\<not> is_dst 2024 2 15"
    using is_dst_spec [of 2 2024 15, THEN conjunct1] by simp
  have dec: "\<not> is_dst 2024 12 25"
    using is_dst_spec [of 12 2024 25, THEN conjunct1] by simp
  have jul: "is_dst 2024 7 4"
    using is_dst_spec [of 7 2024 4, THEN conjunct2, THEN conjunct1] by simp
  have mar9: "\<not> is_dst 2024 3 9"
    using is_dst_spec [of 3 2024 9, THEN conjunct2, THEN conjunct2, THEN conjunct1]
    by (simp add: s)
  have mar10: "is_dst 2024 3 10"
    using is_dst_spec [of 3 2024 10, THEN conjunct2, THEN conjunct2, THEN conjunct1]
    by (simp add: s)
  have nov2: "is_dst 2024 11 2"
    using is_dst_spec [of 11 2024 2, THEN conjunct2, THEN conjunct2, THEN conjunct2,
        THEN conjunct1]
    by (simp add: e)
  have nov3: "\<not> is_dst 2024 11 3"
    using is_dst_spec [of 11 2024 3, THEN conjunct2, THEN conjunct2, THEN conjunct2,
        THEN conjunct1]
    by (simp add: e)
  from s e feb dec jul mar9 mar10 nov2 nov3 show ?thesis by simp
qed

text \<open>
  C9. The effective offset is the base offset or the base offset plus one, the latter
  exactly when the DST predicate holds of the clock's date; the base offset is
  negative; and the local hour \<open>(utc_hour + offset) mod 24\<close> lies in \<open>0..23\<close> whatever the
  UTC hour.
\<close>

theorem local_hour_range:
  "(get_timezone_offset t = BASE_TIMEZONE_OFFSET \<or>
    get_timezone_offset t = BASE_TIMEZONE_OFFSET + 1) \<and>
   (get_timezone_offset t = BASE_TIMEZONE_OFFSET + 1 \<longleftrightarrow>
      is_dst (tm_year t) (tm_month t) (tm_mday t)) \<and>
   BASE_TIMEZONE_OFFSET < 0 \<and>
   get_local_hour t = (tm_hour t + get_timezone_offset t) mod 24 \<and>
   0 \<le> get_local_hour t \<and> get_local_hour t < 24"
  by (simp add: get_timezone_offset_def get_local_hour_def BASE_TIMEZONE_OFFSET_def Let_def)

section \<open>Properties of status parsing\<close>

text \<open>
  Two conditions on a response line, written out on the line itself. The first: the
  line starts with \<open>>>STATUS\<close> or \<open>STATUS\<close>, has at least five comma-separated fields
  once every \<open>>>\<close> is removed, and its fields 2, 3 and 4 convert (float, float, int).
  The second: the line has at least three comma-separated fields and its fields 1, 2
  and 3 convert (float, int, float).
\<close>

abbreviation status_fields :: "string \<Rightarrow> string list" where
  "status_fields l \<equiv> split (replace l ''>>'' []) '',''"

abbreviation parses_as_status :: "'f runtime \<Rightarrow> string \<Rightarrow> bool" where
  "parses_as_status R l \<equiv>
     (startswith l ''>>STATUS'' \<or> startswith l ''STATUS'') \<and>
     length (status_fields l) \<ge> 5 \<and>
     to_float R (status_fields l ! 1) \<noteq> None \<and>
     to_float R (status_fields l ! 2) \<noteq> None \<and>
     to_int R (status_fields l ! 3) \<noteq> None"

abbreviation parses_as_csv :: "'f runtime \<Rightarrow> string \<Rightarrow> bool" where
  "parses_as_csv R l \<equiv>
     length (split l '','') \<ge> 3 \<and>
     to_float R (split l '','' ! 0) \<noteq> None \<and>
     to_int R (split l '','' ! 1) \<noteq> None \<and>
     to_float R (split l '','' ! 2) \<noteq> None"

lemma parse_status_line_None_iff:
  "parse_status_line R l = None \<longleftrightarrow> \<not> parses_as_status R l"
  by (auto simp: parse_status_line_def Let_def split: option.splits)

lemma parse_csv_line_None_iff:
  "parse_csv_line R l = None \<longleftrightarrow> \<not> parses_as_csv R l"
  by (auto simp: parse_csv_line_def Let_def split: option.splits)

lemma parse_status_lines_first:
  "\<forall>l \<in> set pre. parse_status_line R l = None \<Longrightarrow>
   parse_status_lines R (pre @ line # post) =
     (case parse_status_line R line of Some st \<Rightarrow> Some st | None \<Rightarrow> parse_status_lines R post)"
  by (induction pre) simp_all

lemma parse_status_lines_none:
  "\<forall>l \<in> set ls. parse_status_line R l = None \<Longrightarrow> parse_status_lines R ls = None"
  by (induction ls) simp_all

lemma parse_status_line_fields:
  assumes "startswith line ''>>STATUS'' \<or> startswith line ''STATUS''"
    and "fs = split (replace line ''>>'' []) '',''"
    and "length fs \<ge> 5"
    and "to_float R (fs ! 1) = Some t"
    and "to_float R (fs ! 2) = Some sp"
    and "to_int R (fs ! 3) = Some d"
  shows "parse_status_line R line =
     Some \<lparr>temperature = t, setpoint = sp, duty_cycle = d, state = fs ! 4, raw = line\<rparr>"
  using assms unfolding parse_status_line_def Let_def by simp

lemma parse_csv_line_fields:
  assumes "fs = split line '',''"
    and "length fs \<ge> 3"
    and "to_float R (fs ! 0) = Some t"
    and "to_int R (fs ! 1) = Some d"
    and "to_float R (fs ! 2) = Some sp"
  shows "parse_csv_line R line =
     Some \<lparr>temperature = t, setpoint = sp, duty_cycle = d, state = ''unknown'', raw = line\<rparr>"
  using assms unfolding parse_csv_line_def Let_def by simp

text \<open>
  C1 (as the code has it). Take the first response line that starts with \<open>>>STATUS\<close> or
  \<open>STATUS\<close>, has at least five comma-separated fields once every \<open>>>\<close> is removed, and
  whose fields 2, 3 and 4 convert (float, float, int): whatever lines come before it
  that are not of that kind, and whatever lines follow, it gives the status, with
  temperature, setpoint and duty cycle its fields 2, 3 and 4 and the state its field 5,
  field 1 being the \<open>STATUS\<close> token itself, so there is no identifier slot. If no line
  is of that kind, the last line is tried as \<open>temperature,duty_cycle,setpoint\<close> (at
  least three fields) with state \<open>unknown\<close>; if the last line does not convert that
  way either, or the response is empty, the result is \<open>None\<close>.
\<close>

theorem parse_status_spec:
  "(response r = pre @ line # post \<and>
    (\<forall>l \<in> set pre.
       \<not> ((startswith l ''>>STATUS'' \<or> startswith l ''STATUS'') \<and>
          length (split (replace l ''>>'' []) '','') \<ge> 5 \<and>
          to_float R (split (replace l ''>>'' []) '','' ! 1) \<noteq> None \<and>
          to_float R (split (replace l ''>>'' []) '','' ! 2) \<noteq> None \<and>
          to_int R (split (replace l ''>>'' []) '','' ! 3) \<noteq> None)) \<and>
    (startswith line ''>>STATUS'' \<or> startswith line ''STATUS'') \<and>
    fs = split (replace line ''>>'' []) '','' \<and> length fs \<ge> 5 \<and>
    to_float R (fs ! 1) = Some t \<and> to_float R (fs ! 2) = Some sp \<and>
    to_int R (fs ! 3) = Some d
    \<longrightarrow> parse_status R r =
        Some \<lparr>temperature = t, setpoint = sp, duty_cycle = d, state = fs ! 4, raw = line\<rparr>) \<and>
   ((\<forall>l \<in> set (response r). \<not> parses_as_status R l) \<and> response r \<noteq> [] \<and>
    cols = split (last (response r)) '','' \<and> length cols \<ge> 3 \<and>
    to_float R (cols ! 0) = Some t' \<and> to_int R (cols ! 1) = Some d' \<and>
    to_float R (cols ! 2) = Some sp'
    \<longrightarrow> parse_status R r =
        Some \<lparr>temperature = t', setpoint = sp', duty_cycle = d', state = ''unknown'',
              raw = last (response r)\<rparr>) \<and>
   ((\<forall>l \<in> set (response r). \<not> parses_as_status R l) \<and>
    \<not> (length (split (last (response r)) '','') \<ge> 3 \<and>
       to_float R (split (last (response r)) '','' ! 0) \<noteq> None \<and>
       to_int R (split (last (response r)) '','' ! 1) \<noteq> None \<and>
       to_float R (split (last (response r)) '','' ! 2) \<noteq> None)
    \<longrightarrow> parse_status R r = None) \<and>
   (response r = [] \<longrightarrow> parse_status R r = None)"
proof (intro conjI impI)
  assume a: "response r = pre @ line # post \<and>
    (\<forall>l \<in> set pre. \<not> parses_as_status R l) \<and>
    (startswith line ''>>STATUS'' \<or> startswith line ''STATUS'') \<and>
    fs = split (replace line ''>>'' []) '','' \<and> length fs \<ge> 5 \<and>
    to_float R (fs ! 1) = Some t \<and> to_float R (fs ! 2) = Some sp \<and>
    to_int R (fs ! 3) = Some d"
  then have "parse_status_line R line =
     Some \<lparr>temperature = t, setpoint = sp, duty_cycle = d, state = fs ! 4, raw = line\<rparr>"
    by (intro parse_status_line_fields [where fs = fs]) blast+
  moreover from a have pre: "\<forall>l \<in> set pre. parse_status_line R l = None"
    by (simp only: parse_status_line_None_iff) blast
  from a have "response r = pre @ line # post" by blast
  with pre have "parse_status_lines R (response r) =
     (case parse_status_line R line of Some st \<Rightarrow> Some st | None \<Rightarrow> parse_status_lines R post)"
    by (simp add: parse_status_lines_first)
  moreover from a have "response r \<noteq> []" by auto
  ultimately show "parse_status R r =
        Some \<lparr>temperature = t, setpoint = sp, duty_cycle = d, state = fs ! 4, raw = line\<rparr>"
    by (simp add: parse_status_def)
next
  assume b: "(\<forall>l \<in> set (response r). \<not> parses_as_status R l) \<and> response r \<noteq> [] \<and>
    cols = split (last (response r)) '','' \<and> length cols \<ge> 3 \<and>
    to_float R (cols ! 0) = Some t' \<and> to_int R (cols ! 1) = Some d' \<and>
    to_float R (cols ! 2) = Some sp'"
  then have "parse_csv_line R (last (response r)) =
     Some \<lparr>temperature = t', setpoint = sp', duty_cycle = d', state = ''unknown'',
           raw = last (response r)\<rparr>"
    by (intro parse_csv_line_fields [where fs = cols]) blast+
  moreover from b have "\<forall>l \<in> set (response r). parse_status_line R l = None"
    by (simp only: parse_status_line_None_iff) blast
  then have "parse_status_lines R (response r) = None"
    by (rule parse_status_lines_none)
  moreover from b have "response r \<noteq> []" by blast
  ultimately show "parse_status R r =
        Some \<lparr>temperature = t', setpoint = sp', duty_cycle = d', state = ''unknown'',
              raw = last (response r)\<rparr>"
    by (simp add: parse_status_def)
next
  assume c: "(\<forall>l \<in> set (response r). \<not> parses_as_status R l) \<and>
    \<not> parses_as_csv R (last (response r))"
  then have "\<forall>l \<in> set (response r). parse_status_line R l = None"
    by (simp only: parse_status_line_None_iff) blast
  then have "parse_status_lines R (response r) = None"
    by (rule parse_status_lines_none)
  moreover from c have "parse_csv_line R (last (response r)) = None"
    by (simp only: parse_csv_line_None_iff) blast
  ultimately show "parse_status R r = None"
    by (simp add: parse_status_def)
next
  assume "response r = []"
  then show "parse_status R r = None"
    by (simp add: parse_status_def)
qed

theorem parse_status_spec_witness:
  "parse_status decimal_runtime
     \<lparr>success = True,
      response = [''T,91.2,0.5,3,x'', ''>>STATUS,93.4,108.0,42,heating'', ''<<OK''],
      error = None\<rparr> =
     Some \<lparr>temperature = 467 / 5, setpoint = 108, duty_cycle = 42, state = ''heating'',
           raw = ''>>STATUS,93.4,108.0,42,heating''\<rparr> \<and>
   parse_status decimal_runtime
     \<lparr>success = False, response = [''93.4,42,108.0''],
      error = Some ''Response incomplete (timeout)''\<rparr> =
     Some \<lparr>temperature = 467 / 5, setpoint = 108, duty_cycle = 42, state = ''unknown'',
           raw = ''93.4,42,108.0''\<rparr> \<and>
   parse_status decimal_runtime \<lparr>success = True, response = [''<<OK''], error = None\<rparr> = None \<and>
   parse_status decimal_runtime
     \<lparr>success = False, response = [], error = Some ''No response received''\<rparr> = None"
proof -
  let ?R = "decimal_runtime"
  let ?r1 = "\<lparr>success = True,
      response = [''T,91.2,0.5,3,x'', ''>>STATUS,93.4,108.0,42,heating'', ''<<OK''],
      error = None\<rparr>"
  let ?r2 = "\<lparr>success = False, response = [''93.4,42,108.0''],
      error = Some ''Response incomplete (timeout)''\<rparr>"
  let ?r3 = "\<lparr>success = True, response = [''<<OK''], error = None\<rparr>"
  let ?r4 = "\<lparr>success = False, response = [], error = Some ''No response received''\<rparr>"
  let ?fs = "[''STATUS'', ''93.4'', ''108.0'', ''42'', ''heating'']"
  let ?cols = "[''93.4'', ''42'', ''108.0'']"
  have h1: "response ?r1 = [''T,91.2,0.5,3,x''] @ ''>>STATUS,93.4,108.0,42,heating'' # [''<<OK''] \<and>
      (\<forall>l \<in> set [''T,91.2,0.5,3,x'']. \<not> parses_as_status ?R l) \<and>
      (startswith ''>>STATUS,93.4,108.0,42,heating'' ''>>STATUS'' \<or>
       startswith ''>>STATUS,93.4,108.0,42,heating'' ''STATUS'') \<and>
      ?fs = split (replace ''>>STATUS,93.4,108.0,42,heating'' ''>>'' []) '','' \<and>
      length ?fs \<ge> 5 \<and>
      to_float ?R (?fs ! 1) = Some (467 / 5) \<and>
      to_float ?R (?fs ! 2) = Some 108 \<and>
      to_int ?R (?fs ! 3) = Some 42"
    by code_simp
  have h2: "(\<forall>l \<in> set (response ?r2). \<not> parses_as_status ?R l) \<and>
      response ?r2 \<noteq> [] \<and>
      ?cols = split (last (response ?r2)) '','' \<and> length ?cols \<ge> 3 \<and>
      to_float ?R (?cols ! 0) = Some (467 / 5) \<and>
      to_int ?R (?cols ! 1) = Some 42 \<and>
      to_float ?R (?cols ! 2) = Some 108"
    by code_simp
  have h3: "(\<forall>l \<in> set (response ?r3). \<not> parses_as_status ?R l) \<and>
      \<not> parses_as_csv ?R (last (response ?r3))"
    by code_simp
  have h4: "response ?r4 = []"
    by simp
  have c1: "parse_status ?R ?r1 =
      Some \<lparr>temperature = 467 / 5, setpoint = 108, duty_cycle = 42, state = ?fs ! 4,
            raw = ''>>STATUS,93.4,108.0,42,heating''\<rparr>"
    using parse_status_spec [THEN conjunct1, THEN mp, OF h1] .
  have c2: "parse_status ?R ?r2 =
      Some \<lparr>temperature = 467 / 5, setpoint = 108, duty_cycle = 42, state = ''unknown'',
            raw = last (response ?r2)\<rparr>"
    using parse_status_spec [THEN conjunct2, THEN conjunct1, THEN mp, OF h2] .
  have c3: "parse_status ?R ?r3 = None"
    using parse_status_spec [THEN conjunct2, THEN conjunct2, THEN conjunct1, THEN mp, OF h3] .
  have c4: "parse_status ?R ?r4 = None"
    using parse_status_spec [THEN conjunct2, THEN conjunct2, THEN conjunct2, THEN mp, OF h4] .
  from c1 c2 c3 c4 show ?thesis by simp
qed

theorem parse_status_identifier_counterexample:
  "parse_status decimal_runtime
     \<lparr>success = True, response = [''>>STATUS,1,93.4,108.0,42,heating''], error = None\<rparr> = None \<and>
   parse_status decimal_runtime
     \<lparr>success = True, response = [''>>STATUS,1,93.4,108.0,42,heating'', ''<<OK''],
      error = None\<rparr> = None"
  by code_simp

section \<open>Properties of the serial exchange\<close>

definition log_extends :: "uart_op set \<Rightarrow> uart \<Rightarrow> uart \<Rightarrow> bool" where
  "log_extends S u u' = (\<exists>ops. oplog u' = oplog u @ ops \<and> set ops \<subseteq> S)"

lemma log_extends_refl: "log_extends S u u"
  by (simp add: log_extends_def)

lemma log_extends_trans: "log_extends S u v \<Longrightarrow> log_extends S v w \<Longrightarrow> log_extends S u w"
  unfolding log_extends_def by (metis append.assoc set_append Un_subset_iff)

lemma driver_call_log:
  "driver_call op u = (u1, r) \<Longrightarrow> oplog u1 = oplog u @ [op]"
  by (auto simp: driver_call_def Let_def split: list.splits uart_event.splits)

lemma driver_call_feed:
  "driver_call op u = (u1, r) \<Longrightarrow> feed u1 = drop 1 (feed u)"
  by (auto simp: driver_call_def Let_def split: list.splits uart_event.splits)

lemma driver_call_txroom:
  "driver_call op u = (u1, r) \<Longrightarrow> txroom u1 = txroom u"
  by (auto simp: driver_call_def Let_def split: list.splits uart_event.splits)

lemma uart_any_facts:
  assumes "uart_any u = (u1, r)"
  shows "oplog u1 = oplog u @ [OpAny]" and "feed u1 = drop 1 (feed u)"
    and "txroom u1 = txroom u" and "r = Inr n \<Longrightarrow> n = length (rxbuf u1)"
proof -
  obtain v e where d: "driver_call OpAny u = (v, e)" by (cases "driver_call OpAny u")
  from assms d have v: "u1 = v"
    by (simp add: uart_any_def split: option.splits)
  show "oplog u1 = oplog u @ [OpAny]" using driver_call_log [OF d] v by simp
  show "feed u1 = drop 1 (feed u)" using driver_call_feed [OF d] v by simp
  show "txroom u1 = txroom u" using driver_call_txroom [OF d] v by simp
  show "r = Inr n \<Longrightarrow> n = length (rxbuf u1)"
    using assms d by (auto simp: uart_any_def split: option.splits)
qed

lemma uart_read_facts:
  assumes "uart_read u = (u1, r)"
  shows "oplog u1 = oplog u @ [OpRead]" and "feed u1 = drop 1 (feed u)"
    and "txroom u1 = txroom u" and "r = Inr d \<Longrightarrow> rxbuf u1 = []"
proof -
  obtain v e where d: "driver_call OpRead u = (v, e)" by (cases "driver_call OpRead u")
  from assms d have v: "oplog u1 = oplog v \<and> feed u1 = feed v \<and> txroom u1 = txroom v"
    by (auto simp: uart_read_def split: option.splits)
  show "oplog u1 = oplog u @ [OpRead]" using driver_call_log [OF d] v by simp
  show "feed u1 = drop 1 (feed u)" using driver_call_feed [OF d] v by simp
  show "txroom u1 = txroom u" using driver_call_txroom [OF d] v by simp
  show "r = Inr d \<Longrightarrow> rxbuf u1 = []"
    using assms d by (auto simp: uart_read_def split: option.splits)
qed

lemma uart_readline_facts:
  assumes "uart_readline u = (u1, r)"
  shows "oplog u1 = oplog u @ [OpReadline]" and "feed u1 = drop 1 (feed u)"
    and "txroom u1 = txroom u"
proof -
  obtain v e where d: "driver_call OpReadline u = (v, e)"
    by (cases "driver_call OpReadline u")
  from assms d have "u1 = v \<or> (\<exists>b. u1 = v\<lparr>rxbuf := b\<rparr>)"
    by (cases e; cases "take_line (rxbuf v)") (auto simp: uart_readline_def)
  then have v: "oplog u1 = oplog v \<and> feed u1 = feed v \<and> txroom u1 = txroom v"
    by auto
  show "oplog u1 = oplog u @ [OpReadline]" using driver_call_log [OF d] v by simp
  show "feed u1 = drop 1 (feed u)" using driver_call_feed [OF d] v by simp
  show "txroom u1 = txroom u" using driver_call_txroom [OF d] v by simp
qed

lemma uart_write_facts:
  assumes "uart_write buf u = (u1, r)"
  shows "oplog u1 = oplog u @ [OpWrite buf]" and "feed u1 = drop 1 (feed u)"
    and "txroom u1 = txroom u"
proof -
  obtain v e where d: "driver_call (OpWrite buf) u = (v, e)"
    by (cases "driver_call (OpWrite buf) u")
  from assms d have v: "u1 = v"
    by (simp add: uart_write_def split: option.splits)
  show "oplog u1 = oplog u @ [OpWrite buf]" using driver_call_log [OF d] v by simp
  show "feed u1 = drop 1 (feed u)" using driver_call_feed [OF d] v by simp
  show "txroom u1 = txroom u" using driver_call_txroom [OF d] v by simp
qed

lemma log_extends_step:
  "oplog u1 = oplog u @ [op] \<Longrightarrow> op \<in> S \<Longrightarrow> log_extends S u u1"
  by (simp add: log_extends_def)

subsection \<open>The flush loop\<close>

definition flushed :: "uart \<Rightarrow> uart \<Rightarrow> bool" where
  "flushed u u1 =
     (txroom u1 = txroom u \<and> (\<exists>k. feed u1 = drop k (feed u)) \<and>
      log_extends {OpAny, OpRead} u u1)"

lemma flushed_trans: "flushed u v \<Longrightarrow> flushed v w \<Longrightarrow> flushed u w"
  unfolding flushed_def
  by (metis drop_drop log_extends_trans)

lemma flushed_any: "uart_any u = (u1, r) \<Longrightarrow> flushed u u1"
  unfolding flushed_def
  using uart_any_facts(1-3) [of u u1 r] by (blast intro: log_extends_step)

lemma flushed_read: "uart_read u = (u1, r) \<Longrightarrow> flushed u u1"
  unfolding flushed_def
  using uart_read_facts(1-3) [of u u1 r] by (blast intro: log_extends_step)

lemma flush_round_Inr:
  assumes "flush_round u = Inr u'"
  shows "flushed u u'"
proof -
  from assms obtain u1 n d where a: "uart_any u = (u1, Inr n)" and r: "uart_read u1 = (u', Inr d)"
    by (auto simp: flush_round_def split: prod.splits sum.splits if_splits)
  from flushed_any [OF a] flushed_read [OF r] show ?thesis by (rule flushed_trans)
qed

lemma flush_round_Inl:
  assumes "flush_round u = Inl (u1, r)"
  shows "flushed u u1 \<and> (r = None \<longrightarrow> rxbuf u1 = [])"
proof -
  from assms consider
      (anyfault) e where "uart_any u = (u1, Inl e)" "r = Some e"
    | (empty) "uart_any u = (u1, Inr 0)" "r = None"
    | (readfault) v n e where "uart_any u = (v, Inr n)" "uart_read v = (u1, Inl e)" "r = Some e"
    by (auto simp: flush_round_def split: prod.splits sum.splits if_splits)
  then show ?thesis
  proof cases
    case anyfault
    then show ?thesis using flushed_any by simp
  next
    case empty
    then show ?thesis using flushed_any [of u u1] uart_any_facts(4) [of u u1 "Inr 0" 0] by simp
  next
    case readfault
    then show ?thesis using flushed_any [of u v] flushed_read [of v u1] flushed_trans by blast
  qed
qed

lemma flush_rx_flushed:
  "flush_rx u = (u1, r) \<Longrightarrow> flushed u u1 \<and> (r = None \<longrightarrow> rxbuf u1 = [])"
proof (induction u rule: flush_rx.induct)
  case (1 u)
  show ?case
  proof (cases "flush_round u")
    case (Inl p)
    with "1.prems" have "flush_round u = Inl (u1, r)"
      by (simp add: flush_rx.simps [of u])
    then show ?thesis by (rule flush_round_Inl)
  next
    case (Inr u')
    with "1.prems" have "flush_rx u' = (u1, r)"
      by (simp add: flush_rx.simps [of u])
    with "1.IH" [OF Inr] have "flushed u' u1 \<and> (r = None \<longrightarrow> rxbuf u1 = [])" by simp
    with flush_round_Inr [OF Inr] show ?thesis using flushed_trans by blast
  qed
qed

subsection \<open>The read loop\<close>

lemma read_loop_log:
  "read_loop R n ls u = (u', out) \<Longrightarrow> log_extends {OpAny, OpReadline} u u'"
proof (induction n arbitrary: ls u)
  case 0
  then show ?case by (simp add: log_extends_refl)
next
  case (Suc n)
  obtain u1 ra where a: "uart_any u = (u1, ra)" by (cases "uart_any u")
  have e1: "log_extends {OpAny, OpReadline} u u1"
    using uart_any_facts(1) [OF a] by (simp add: log_extends_step)
  obtain u2 rl where l: "uart_readline u1 = (u2, rl)" by (cases "uart_readline u1")
  have e2: "log_extends {OpAny, OpReadline} u u2"
    using e1 uart_readline_facts(1) [OF l] log_extends_step [of u2 u1 OpReadline]
      log_extends_trans by blast
  from Suc.prems a l consider
      "u' = u1" | "u' = u2"
    | ls' where "read_loop R n ls' u1 = (u', out)"
    | ls' where "read_loop R n ls' u2 = (u', out)"
    by (auto simp: Let_def split: sum.splits if_splits option.splits)
  then show ?case
    using e1 e2 Suc.IH log_extends_trans by cases blast+
qed

lemma read_loop_found:
  "read_loop R n ls u = (u', Finished lines found) \<Longrightarrow>
   \<forall>l \<in> set ls. \<not> is_completion l \<Longrightarrow>
   found = (\<exists>l \<in> set lines. is_completion l)"
proof (induction n arbitrary: ls u)
  case 0
  then show ?case by auto
next
  case (Suc n)
  obtain u1 ra where a: "uart_any u = (u1, ra)" by (cases "uart_any u")
  obtain u2 rl where l: "uart_readline u1 = (u2, rl)" by (cases "uart_readline u1")
  from Suc.prems a l consider
      (same1) "read_loop R n ls u1 = (u', Finished lines found)"
    | (same2) "read_loop R n ls u2 = (u', Finished lines found)"
    | (hit) d where "is_completion d" "lines = ls @ [d]" "found"
    | (more) d where "\<not> is_completion d" "read_loop R n (ls @ [d]) u2 = (u', Finished lines found)"
    by (auto simp: Let_def split: sum.splits if_splits option.splits)
  then show ?case
  proof cases
    case same1
    then show ?thesis using Suc.IH Suc.prems(2) by blast
  next
    case same2
    then show ?thesis using Suc.IH Suc.prems(2) by blast
  next
    case hit
    then show ?thesis by auto
  next
    case more
    have "\<forall>l \<in> set (ls @ [d]). \<not> is_completion l"
      using Suc.prems(2) more(1) by simp
    with more(2) show ?thesis using Suc.IH by blast
  qed
qed

subsection \<open>The result\<close>

lemma not_completion_not_error: "\<not> is_completion l \<Longrightarrow> \<not> startswith l ''<<ERROR''"
  by (simp add: is_completion_def)

lemma check_results_response:
  "response (check_results ls found) =
     (if filter is_command_response ls \<noteq> [] then filter is_command_response ls else ls)"
  by (simp add: check_results_def Let_def split: option.splits)

lemma find_Some_set: "List.find P xs = Some x \<Longrightarrow> P x \<and> x \<in> set xs"
  by (induction xs) (auto split: if_splits)

lemma check_results_success:
  "success (check_results ls found) =
     (ls \<noteq> [] \<and> found \<and>
      \<not> (\<exists>l \<in> set (filter is_command_response ls). startswith l ''<<ERROR''))"
proof (cases "List.find (\<lambda>line. startswith line ''<<ERROR'') (filter is_command_response ls)")
  case None
  then have "\<not> (\<exists>l \<in> set (filter is_command_response ls). startswith l ''<<ERROR'')"
    by (simp add: find_None_iff)
  with None show ?thesis
    by (simp add: check_results_def Let_def)
next
  case (Some l)
  from find_Some_set [OF Some]
  have "\<exists>l \<in> set (filter is_command_response ls). startswith l ''<<ERROR''" by blast
  with Some show ?thesis
    by (simp add: check_results_def Let_def)
qed

lemma check_results_empty:
  "error (check_results [] found) = Some ''No response received''"
  by (simp add: check_results_def Let_def)

lemma check_results_timeout:
  assumes "ls \<noteq> []" and "\<forall>l \<in> set ls. \<not> startswith l ''<<ERROR''"
  shows "error (check_results ls False) = Some ''Response incomplete (timeout)''"
proof -
  have "List.find (\<lambda>line. startswith line ''<<ERROR'') (filter is_command_response ls) = None"
    using assms(2) by (simp add: find_None_iff)
  with assms(1) show ?thesis
    by (simp add: check_results_def Let_def)
qed

lemma check_results_error_line:
  "List.find (\<lambda>line. startswith line ''<<ERROR'') (filter is_command_response ls) = Some l \<Longrightarrow>
   error (check_results ls found) = Some l \<and> \<not> success (check_results ls found)"
  by (auto simp: check_results_def Let_def)

lemma send_command_finished:
  assumes "strip cmd \<noteq> []"
    and "flush_rx u = (u1, None)"
    and "uart_write (strip cmd @ [CHR 0x0A]) u1 = (u2, Inr (length (strip cmd @ [CHR 0x0A])))"
    and "read_loop R timeout [] u2 = (u3, Finished ls found)"
  shows "send_command R cmd timeout u = (u3, check_results ls found)"
  using assms by (simp add: send_command_def Let_def)

subsection \<open>The exchange does not depend on the log\<close>

definition same_port :: "uart \<Rightarrow> uart \<Rightarrow> bool" where
  "same_port a b = (rxbuf a = rxbuf b \<and> feed a = feed b \<and> txroom a = txroom b)"

lemma driver_call_same:
  assumes "same_port a b" and "driver_call op a = (a1, ra)" and "driver_call op b = (b1, rb)"
  shows "same_port a1 b1 \<and> ra = rb"
  using assms
  by (cases "feed b"; cases "hd (feed b)")
    (auto simp: driver_call_def same_port_def Let_def split: list.splits uart_event.splits)

lemma uart_any_same:
  assumes "same_port a b" and "uart_any a = (a1, ra)" and "uart_any b = (b1, rb)"
  shows "same_port a1 b1 \<and> ra = rb"
proof -
  obtain a' ea where da: "driver_call OpAny a = (a', ea)" by (cases "driver_call OpAny a")
  obtain b' eb where db: "driver_call OpAny b = (b', eb)" by (cases "driver_call OpAny b")
  from driver_call_same [OF assms(1) da db] have s: "same_port a' b'" and e: "ea = eb" by simp_all
  from assms(2,3) da db s e show ?thesis
    by (cases eb) (auto simp: uart_any_def same_port_def)
qed

lemma uart_write_same:
  assumes "same_port a b" and "uart_write buf a = (a1, ra)" and "uart_write buf b = (b1, rb)"
  shows "same_port a1 b1 \<and> ra = rb"
proof -
  obtain a' ea where da: "driver_call (OpWrite buf) a = (a', ea)"
    by (cases "driver_call (OpWrite buf) a")
  obtain b' eb where db: "driver_call (OpWrite buf) b = (b', eb)"
    by (cases "driver_call (OpWrite buf) b")
  from driver_call_same [OF assms(1) da db] have s: "same_port a' b'" and e: "ea = eb" by simp_all
  from assms(2,3) da db s e show ?thesis
    by (cases eb) (auto simp: uart_write_def same_port_def)
qed

lemma uart_readline_same:
  assumes "same_port a b" and "uart_readline a = (a1, ra)" and "uart_readline b = (b1, rb)"
  shows "same_port a1 b1 \<and> ra = rb"
proof -
  obtain a' ea where da: "driver_call OpReadline a = (a', ea)"
    by (cases "driver_call OpReadline a")
  obtain b' eb where db: "driver_call OpReadline b = (b', eb)"
    by (cases "driver_call OpReadline b")
  from driver_call_same [OF assms(1) da db] have s: "same_port a' b'" and e: "ea = eb" by simp_all
  from assms(2,3) da db s e show ?thesis
    by (cases eb; cases "take_line (rxbuf b')") (auto simp: uart_readline_def same_port_def)
qed

lemma read_loop_same:
  "same_port a b \<Longrightarrow> read_loop R n ls a = (a', oa) \<Longrightarrow> read_loop R n ls b = (b', ob) \<Longrightarrow>
   same_port a' b' \<and> oa = ob"
proof (induction n arbitrary: ls a b)
  case 0
  then show ?case by simp
next
  case (Suc n)
  obtain a1 ra where A: "uart_any a = (a1, ra)" by (cases "uart_any a")
  obtain b1 rb where B: "uart_any b = (b1, rb)" by (cases "uart_any b")
  from uart_any_same [OF Suc.prems(1) A B] have s1: "same_port a1 b1" and r1: "ra = rb"
    by simp_all
  obtain a2 la where LA: "uart_readline a1 = (a2, la)" by (cases "uart_readline a1")
  obtain b2 lb where LB: "uart_readline b1 = (b2, lb)" by (cases "uart_readline b1")
  from uart_readline_same [OF s1 LA LB] have s2: "same_port a2 b2" and r2: "la = lb"
    by simp_all
  show ?case
  proof (cases rb)
    case (Inl e)
    with Suc.prems(2,3) A B r1 s1 show ?thesis by simp
  next
    case (Inr k)
    show ?thesis
    proof (cases "k > 0")
      case False
      with Inr Suc.prems(2,3) A B r1 have "read_loop R n ls a1 = (a', oa)"
        and "read_loop R n ls b1 = (b', ob)" by simp_all
      with Suc.IH [OF s1] show ?thesis by blast
    next
      case True
      show ?thesis
      proof (cases lb)
        case (Inl e)
        with True Inr Suc.prems(2,3) A B LA LB r1 r2 s2 show ?thesis by simp
      next
        case line: (Inr lo)
        show ?thesis
        proof (cases "lo = None \<or> lo = Some []")
          case True
          with \<open>k > 0\<close> Inr line Suc.prems(2,3) A B LA LB r1 r2
          have "read_loop R n ls a2 = (a', oa)" and "read_loop R n ls b2 = (b', ob)"
            by auto
          with Suc.IH [OF s2] show ?thesis by blast
        next
          case False
          then obtain bs where lo: "lo = Some bs" and bs: "bs \<noteq> []" by (cases lo) auto
          show ?thesis
          proof (cases "decode R bs")
            case (Inl e)
            with lo bs \<open>k > 0\<close> Inr line Suc.prems(2,3) A B LA LB r1 r2 s2 show ?thesis
              by simp
          next
            case dec: (Inr t)
            show ?thesis
            proof (cases "is_completion (strip t)")
              case True
              with dec lo bs \<open>k > 0\<close> Inr line Suc.prems(2,3) A B LA LB r1 r2 s2 show ?thesis
                by (simp add: Let_def)
            next
              case False
              with dec lo bs \<open>k > 0\<close> Inr line Suc.prems(2,3) A B LA LB r1 r2
              have "read_loop R n (ls @ [strip t]) a2 = (a', oa)"
                and "read_loop R n (ls @ [strip t]) b2 = (b', ob)"
                by (simp_all add: Let_def)
              with Suc.IH [OF s2] show ?thesis by blast
            qed
          qed
        qed
      qed
    qed
  qed
qed

lemma send_command_same_after_flush:
  assumes fu: "flush_rx u = (u1, None)" and fv: "flush_rx v = (v1, None)"
    and feed: "feed u1 = feed v1" and room: "txroom u = txroom v"
  shows "snd (send_command R cmd timeout u) = snd (send_command R cmd timeout v)"
proof (cases "strip cmd = []")
  case True
  then show ?thesis by (simp add: send_command_def Let_def)
next
  case False
  let ?b = "strip cmd @ [CHR 0x0A]"
  from flush_rx_flushed [OF fu] flush_rx_flushed [OF fv] feed room
  have s1: "same_port u1 v1" by (simp add: same_port_def flushed_def)
  obtain u2 wu where WU: "uart_write ?b u1 = (u2, wu)" by (cases "uart_write ?b u1")
  obtain v2 wv where WV: "uart_write ?b v1 = (v2, wv)" by (cases "uart_write ?b v1")
  from uart_write_same [OF s1 WU WV] have s2: "same_port u2 v2" and w: "wu = wv" by simp_all
  obtain u3 ou where RU: "read_loop R timeout [] u2 = (u3, ou)"
    by (cases "read_loop R timeout [] u2")
  obtain v3 ov where RV: "read_loop R timeout [] v2 = (v3, ov)"
    by (cases "read_loop R timeout [] v2")
  from read_loop_same [OF s2 RU RV] have o: "ou = ov" by simp
  from False fu fv WU WV RU RV w o show ?thesis
    by (cases wv; cases ov) (simp_all add: send_command_def Let_def)
qed

subsection \<open>The order of the driver calls\<close>

lemma send_command_log:
  "\<exists>fl rd. set fl \<subseteq> {OpAny, OpRead} \<and> set rd \<subseteq> {OpAny, OpReadline} \<and>
     (oplog (fst (send_command R cmd timeout u)) = oplog u @ fl \<or>
      oplog (fst (send_command R cmd timeout u)) =
        oplog u @ fl @ [OpWrite (strip cmd @ [CHR 0x0A])] @ rd)"
proof (cases "strip cmd = []")
  case True
  then have "oplog (fst (send_command R cmd timeout u)) = oplog u @ []"
    by (simp add: send_command_def Let_def)
  then show ?thesis by (metis empty_set empty_subsetI)
next
  case False
  let ?b = "strip cmd @ [CHR 0x0A]"
  obtain u1 r where F: "flush_rx u = (u1, r)" by (cases "flush_rx u")
  from flush_rx_flushed [OF F] obtain fl where fl: "oplog u1 = oplog u @ fl"
    and flS: "set fl \<subseteq> {OpAny, OpRead}"
    by (auto simp: flushed_def log_extends_def)
  show ?thesis
  proof (cases r)
    case (Some e)
    with False F have "fst (send_command R cmd timeout u) = u1"
      by (simp add: send_command_def Let_def)
    with fl flS show ?thesis by (metis empty_set empty_subsetI)
  next
    case None
    obtain u2 w where W: "uart_write ?b u1 = (u2, w)" by (cases "uart_write ?b u1")
    have l2: "oplog u2 = oplog u @ fl @ [OpWrite ?b] @ []"
      using uart_write_facts(1) [OF W] fl by simp
    obtain u3 out where RL: "read_loop R timeout [] u2 = (u3, out)"
      by (cases "read_loop R timeout [] u2")
    from read_loop_log [OF RL] obtain rd where rd: "oplog u3 = oplog u2 @ rd"
      and rdS: "set rd \<subseteq> {OpAny, OpReadline}"
      by (auto simp: log_extends_def)
    have l3: "oplog u3 = oplog u @ fl @ [OpWrite ?b] @ rd"
      using rd l2 by simp
    from False None F W RL
    have "fst (send_command R cmd timeout u) = u2 \<or> fst (send_command R cmd timeout u) = u3"
      by (cases w; cases out) (simp_all add: send_command_def Let_def)
    then show ?thesis
    proof
      assume "fst (send_command R cmd timeout u) = u2"
      with l2 flS show ?thesis by (metis empty_set empty_subsetI)
    next
      assume "fst (send_command R cmd timeout u) = u3"
      with l3 flS rdS show ?thesis by metis
    qed
  qed
qed

lemma send_command_transmits_after_flush:
  assumes "strip cmd \<noteq> []" and "flush_rx u = (u1, None)"
  shows "\<exists>rest. oplog (fst (send_command R cmd timeout u)) =
           oplog u1 @ OpWrite (strip cmd @ [CHR 0x0A]) # rest"
proof -
  let ?b = "strip cmd @ [CHR 0x0A]"
  obtain u2 w where W: "uart_write ?b u1 = (u2, w)" by (cases "uart_write ?b u1")
  have l2: "oplog u2 = oplog u1 @ OpWrite ?b # []"
    using uart_write_facts(1) [OF W] by simp
  obtain u3 out where RL: "read_loop R timeout [] u2 = (u3, out)"
    by (cases "read_loop R timeout [] u2")
  from read_loop_log [OF RL] obtain rd where "oplog u3 = oplog u2 @ rd"
    by (auto simp: log_extends_def)
  with l2 have l3: "oplog u3 = oplog u1 @ OpWrite ?b # rd" by simp
  from assms W RL
  have "fst (send_command R cmd timeout u) = u2 \<or> fst (send_command R cmd timeout u) = u3"
    by (cases w; cases out) (simp_all add: send_command_def Let_def)
  with l2 l3 show ?thesis by metis
qed

subsection \<open>The contract of the exchange\<close>

lemma send_command_success_path:
  assumes "success (snd (send_command R cmd timeout u))"
  shows "\<exists>u1 u2 u3 ls. strip cmd \<noteq> [] \<and> flush_rx u = (u1, None) \<and>
     uart_write (strip cmd @ [CHR 0x0A]) u1 = (u2, Inr (length (strip cmd @ [CHR 0x0A]))) \<and>
     read_loop R timeout [] u2 = (u3, Finished ls True)"
proof -
  let ?b = "strip cmd @ [CHR 0x0A]"
  have ne: "strip cmd \<noteq> []"
    using assms by (auto simp: send_command_def Let_def)
  obtain u1 r where F: "flush_rx u = (u1, r)" by (cases "flush_rx u")
  have r: "r = None"
    using assms ne F by (cases r) (simp_all add: send_command_def Let_def uart_exception_def)
  obtain u2 w where W: "uart_write ?b u1 = (u2, w)" by (cases "uart_write ?b u1")
  have w: "w = Inr (length ?b)"
    using assms ne F r W
    by (cases w) (auto simp: send_command_def Let_def uart_exception_def split: if_splits)
  obtain u3 out where RL: "read_loop R timeout [] u2 = (u3, out)"
    by (cases "read_loop R timeout [] u2")
  have "\<exists>ls. out = Finished ls True"
  proof (cases out)
    case (Returned e)
    with assms ne F r W w RL show ?thesis
      by (simp add: send_command_def Let_def)
  next
    case (Raised e)
    with assms ne F r W w RL show ?thesis
      by (simp add: send_command_def Let_def uart_exception_def)
  next
    case (Finished ls found)
    with assms ne F r W w RL have "success (check_results ls found)"
      by (simp add: send_command_def Let_def)
    then have found by (simp add: check_results_success)
    with Finished show ?thesis by simp
  qed
  with ne F r W w RL show ?thesis by blast
qed

text \<open>
  C2. For an exchange that reaches the end of the read loop with the accumulated lines
  \<open>ls\<close>: the result has \<open>success\<close> exactly when a completion line (one starting with
  \<open><<OK\<close> or \<open><<ERROR\<close>) was read and no line of the filtered set starts with
  \<open><<ERROR\<close>; when no line was read, \<open>success\<close> is false and the error is
  \<open>No response received\<close>; when lines were read and none is a completion line,
  \<open>success\<close> is false and the error is \<open>Response incomplete (timeout)\<close>; and when the
  filtered set has a line starting with \<open><<ERROR\<close>, \<open>success\<close> is false and the error
  is the first such line. On every other path of \<open>send_command\<close> \<open>success\<close> is false:
  a successful result comes only from a read loop that ended on a completion line.
\<close>

theorem send_command_result_contract:
  "(strip cmd \<noteq> [] \<and> flush_rx u = (u1, None) \<and>
    uart_write (strip cmd @ [CHR 0x0A]) u1 = (u2, Inr (length (strip cmd @ [CHR 0x0A]))) \<and>
    read_loop R timeout [] u2 = (u3, Finished ls found) \<and>
    r = snd (send_command R cmd timeout u)
    \<longrightarrow>
      (success r \<longleftrightarrow>
         (\<exists>l \<in> set ls. startswith l ''<<OK'' \<or> startswith l ''<<ERROR'') \<and>
         \<not> (\<exists>l \<in> set (filter is_command_response ls). startswith l ''<<ERROR'')) \<and>
      (ls = [] \<longrightarrow> \<not> success r \<and> error r = Some ''No response received'') \<and>
      (ls \<noteq> [] \<and> \<not> (\<exists>l \<in> set ls. startswith l ''<<OK'' \<or> startswith l ''<<ERROR'')
         \<longrightarrow> \<not> success r \<and> error r = Some ''Response incomplete (timeout)'') \<and>
      (\<forall>l. List.find (\<lambda>x. startswith x ''<<ERROR'') (filter is_command_response ls) = Some l
         \<longrightarrow> \<not> success r \<and> error r = Some l)) \<and>
   (success (snd (send_command R cmd timeout u)) \<longrightarrow>
      (\<exists>u1 u2 u3 ls. strip cmd \<noteq> [] \<and> flush_rx u = (u1, None) \<and>
         uart_write (strip cmd @ [CHR 0x0A]) u1 =
           (u2, Inr (length (strip cmd @ [CHR 0x0A]))) \<and>
         read_loop R timeout [] u2 = (u3, Finished ls True)))"
proof (rule conjI)
  show "strip cmd \<noteq> [] \<and> flush_rx u = (u1, None) \<and>
    uart_write (strip cmd @ [CHR 0x0A]) u1 = (u2, Inr (length (strip cmd @ [CHR 0x0A]))) \<and>
    read_loop R timeout [] u2 = (u3, Finished ls found) \<and>
    r = snd (send_command R cmd timeout u)
    \<longrightarrow>
      (success r \<longleftrightarrow>
         (\<exists>l \<in> set ls. startswith l ''<<OK'' \<or> startswith l ''<<ERROR'') \<and>
         \<not> (\<exists>l \<in> set (filter is_command_response ls). startswith l ''<<ERROR'')) \<and>
      (ls = [] \<longrightarrow> \<not> success r \<and> error r = Some ''No response received'') \<and>
      (ls \<noteq> [] \<and> \<not> (\<exists>l \<in> set ls. startswith l ''<<OK'' \<or> startswith l ''<<ERROR'')
         \<longrightarrow> \<not> success r \<and> error r = Some ''Response incomplete (timeout)'') \<and>
      (\<forall>l. List.find (\<lambda>x. startswith x ''<<ERROR'') (filter is_command_response ls) = Some l
         \<longrightarrow> \<not> success r \<and> error r = Some l)"
  proof (rule impI)
    assume h: "strip cmd \<noteq> [] \<and> flush_rx u = (u1, None) \<and>
      uart_write (strip cmd @ [CHR 0x0A]) u1 = (u2, Inr (length (strip cmd @ [CHR 0x0A]))) \<and>
      read_loop R timeout [] u2 = (u3, Finished ls found) \<and>
      r = snd (send_command R cmd timeout u)"
    then have r: "r = check_results ls found"
      using send_command_finished [of cmd u u1 u2 R timeout u3 ls found] by simp
    from h have "found = (\<exists>l \<in> set ls. is_completion l)"
      using read_loop_found [of R timeout "[]" u2 u3 ls found] by simp
    then have found: "found = (\<exists>l \<in> set ls. startswith l ''<<OK'' \<or> startswith l ''<<ERROR'')"
      by (simp add: is_completion_def)
    have nonempty: "found \<Longrightarrow> ls \<noteq> []"
      using found by auto
    have c1: "success r \<longleftrightarrow>
         (\<exists>l \<in> set ls. startswith l ''<<OK'' \<or> startswith l ''<<ERROR'') \<and>
         \<not> (\<exists>l \<in> set (filter is_command_response ls). startswith l ''<<ERROR'')"
      unfolding r check_results_success using found nonempty by blast
    have c2: "ls = [] \<longrightarrow> \<not> success r \<and> error r = Some ''No response received''"
      unfolding r by (simp add: check_results_success check_results_empty)
    have c3: "ls \<noteq> [] \<and> \<not> (\<exists>l \<in> set ls. startswith l ''<<OK'' \<or> startswith l ''<<ERROR'')
         \<longrightarrow> \<not> success r \<and> error r = Some ''Response incomplete (timeout)''"
    proof
      assume a: "ls \<noteq> [] \<and> \<not> (\<exists>l \<in> set ls. startswith l ''<<OK'' \<or> startswith l ''<<ERROR'')"
      then have nf: "\<not> found" using found by simp
      from a have "\<forall>l \<in> set ls. \<not> startswith l ''<<ERROR''" by blast
      with a nf show "\<not> success r \<and> error r = Some ''Response incomplete (timeout)''"
        unfolding r by (simp add: check_results_success check_results_timeout)
    qed
    have c4: "\<forall>l. List.find (\<lambda>x. startswith x ''<<ERROR'') (filter is_command_response ls) = Some l
         \<longrightarrow> \<not> success r \<and> error r = Some l"
      unfolding r using check_results_error_line by blast
    from c1 c2 c3 c4 show "(success r \<longleftrightarrow>
         (\<exists>l \<in> set ls. startswith l ''<<OK'' \<or> startswith l ''<<ERROR'') \<and>
         \<not> (\<exists>l \<in> set (filter is_command_response ls). startswith l ''<<ERROR'')) \<and>
      (ls = [] \<longrightarrow> \<not> success r \<and> error r = Some ''No response received'') \<and>
      (ls \<noteq> [] \<and> \<not> (\<exists>l \<in> set ls. startswith l ''<<OK'' \<or> startswith l ''<<ERROR'')
         \<longrightarrow> \<not> success r \<and> error r = Some ''Response incomplete (timeout)'') \<and>
      (\<forall>l. List.find (\<lambda>x. startswith x ''<<ERROR'') (filter is_command_response ls) = Some l
         \<longrightarrow> \<not> success r \<and> error r = Some l)"
      by (intro conjI)
  qed
next
  show "success (snd (send_command R cmd timeout u)) \<longrightarrow>
      (\<exists>u1 u2 u3 ls. strip cmd \<noteq> [] \<and> flush_rx u = (u1, None) \<and>
         uart_write (strip cmd @ [CHR 0x0A]) u1 =
           (u2, Inr (length (strip cmd @ [CHR 0x0A]))) \<and>
         read_loop R timeout [] u2 = (u3, Finished ls True))"
    using send_command_success_path [of R cmd timeout u] by blast
qed

text \<open>
  C7. For an exchange that reaches the end of the read loop with the accumulated lines
  \<open>ls\<close>, the reported response is the sublist of the lines that start with \<open><<\<close> or
  \<open>>>\<close>, in order; when no line does, it is \<open>ls\<close> itself.
\<close>

theorem send_command_response_filter:
  "strip cmd \<noteq> [] \<and> flush_rx u = (u1, None) \<and>
   uart_write (strip cmd @ [CHR 0x0A]) u1 = (u2, Inr (length (strip cmd @ [CHR 0x0A]))) \<and>
   read_loop R timeout [] u2 = (u3, Finished ls found)
   \<longrightarrow>
     response (snd (send_command R cmd timeout u)) =
       (if filter (\<lambda>line. startswith line ''<<'' \<or> startswith line ''>>'') ls \<noteq> []
        then filter (\<lambda>line. startswith line ''<<'' \<or> startswith line ''>>'') ls
        else ls)"
proof
  assume h: "strip cmd \<noteq> [] \<and> flush_rx u = (u1, None) \<and>
   uart_write (strip cmd @ [CHR 0x0A]) u1 = (u2, Inr (length (strip cmd @ [CHR 0x0A]))) \<and>
   read_loop R timeout [] u2 = (u3, Finished ls found)"
  then have "send_command R cmd timeout u = (u3, check_results ls found)"
    using send_command_finished [of cmd u u1 u2 R timeout u3 ls found] by simp
  moreover have "is_command_response = (\<lambda>line. startswith line ''<<'' \<or> startswith line ''>>'')"
    by (rule ext) (simp add: is_command_response_def)
  ultimately show "response (snd (send_command R cmd timeout u)) =
       (if filter (\<lambda>line. startswith line ''<<'' \<or> startswith line ''>>'') ls \<noteq> []
        then filter (\<lambda>line. startswith line ''<<'' \<or> startswith line ''>>'') ls
        else ls)"
    using check_results_response [of ls found] by simp
qed

text \<open>
  C3. The flush loop returns with an empty receive buffer, having only polled and read,
  and what can still arrive afterwards is a tail of what could arrive when the call
  began. The transmit is the first driver call after it; when the flush loop raises,
  nothing is transmitted. So two exchanges of the same command that differ in what was
  buffered when they began, but not in what arrives after the flush, give the same
  result: no byte buffered before the exchange reaches its response lines.
\<close>

theorem send_command_discards_buffered:
  "(flush_rx u = (u1, None) \<longrightarrow>
      rxbuf u1 = [] \<and> txroom u1 = txroom u \<and> (\<exists>k. feed u1 = drop k (feed u)) \<and>
      (\<exists>fl. oplog u1 = oplog u @ fl \<and> set fl \<subseteq> {OpAny, OpRead})) \<and>
   (strip cmd \<noteq> [] \<and> flush_rx u = (u1, None) \<longrightarrow>
      (\<exists>rest. oplog (fst (send_command R cmd timeout u)) =
         oplog u1 @ OpWrite (strip cmd @ [CHR 0x0A]) # rest)) \<and>
   (strip cmd \<noteq> [] \<and> flush_rx u = (u1, Some e) \<longrightarrow>
      send_command R cmd timeout u = (u1, uart_exception e)) \<and>
   (flush_rx u = (u1, None) \<and> flush_rx v = (v1, None) \<and> feed u1 = feed v1 \<and>
    txroom u = txroom v \<longrightarrow>
      snd (send_command R cmd timeout u) = snd (send_command R cmd timeout v))"
proof (intro conjI impI)
  assume "flush_rx u = (u1, None)"
  from flush_rx_flushed [OF this]
  show "rxbuf u1 = []" and "txroom u1 = txroom u" and "\<exists>k. feed u1 = drop k (feed u)"
    and "\<exists>fl. oplog u1 = oplog u @ fl \<and> set fl \<subseteq> {OpAny, OpRead}"
    by (simp_all add: flushed_def log_extends_def)
next
  assume "strip cmd \<noteq> [] \<and> flush_rx u = (u1, None)"
  then show "\<exists>rest. oplog (fst (send_command R cmd timeout u)) =
         oplog u1 @ OpWrite (strip cmd @ [CHR 0x0A]) # rest"
    using send_command_transmits_after_flush [of cmd u u1 R timeout] by simp
next
  assume "strip cmd \<noteq> [] \<and> flush_rx u = (u1, Some e)"
  then show "send_command R cmd timeout u = (u1, uart_exception e)"
    by (simp add: send_command_def Let_def)
next
  assume "flush_rx u = (u1, None) \<and> flush_rx v = (v1, None) \<and> feed u1 = feed v1 \<and>
    txroom u = txroom v"
  then show "snd (send_command R cmd timeout u) = snd (send_command R cmd timeout v)"
    using send_command_same_after_flush [of u u1 v v1 R cmd timeout] by simp
qed

text \<open>
  C4 (as the code has it). The driver calls of one exchange are made in the order
  flush, transmit, read: first the polls and reads of the flush loop, then at most one
  write of the command bytes, then the polls and line reads of the read loop.
\<close>

theorem send_command_call_order:
  "\<exists>fl rd. set fl \<subseteq> {OpAny, OpRead} \<and> set rd \<subseteq> {OpAny, OpReadline} \<and>
     (oplog (fst (send_command R cmd timeout u)) = oplog u @ fl \<or>
      oplog (fst (send_command R cmd timeout u)) =
        oplog u @ fl @ [OpWrite (strip cmd @ [CHR 0x0A])] @ rd)"
  by (rule send_command_log)

theorem send_command_result_contract_witness:
  "success (snd (send_command decimal_runtime ''reg coffee 107'' 5
      (port [] [Arrive [], Arrive [], Arrive ''<<OK\<newline>'']))) \<and>
   \<not> success (snd (send_command decimal_runtime ''status'' 5 (port [] []))) \<and>
   error (snd (send_command decimal_runtime ''status'' 5 (port [] []))) =
     Some ''No response received'' \<and>
   \<not> success (snd (send_command decimal_runtime ''reg coffee 900'' 5
      (port [] [Arrive [], Arrive [], Arrive ''<<ERROR bad temp\<newline>'']))) \<and>
   error (snd (send_command decimal_runtime ''reg coffee 900'' 5
      (port [] [Arrive [], Arrive [], Arrive ''<<ERROR bad temp\<newline>'']))) =
     Some ''<<ERROR bad temp'' \<and>
   \<not> success (snd (send_command decimal_runtime ''status'' 5
      (port [] [Arrive [], Arrive [], Arrive ''T,91.2,0\<newline>'']))) \<and>
   error (snd (send_command decimal_runtime ''status'' 5
      (port [] [Arrive [], Arrive [], Arrive ''T,91.2,0\<newline>'']))) =
     Some ''Response incomplete (timeout)''"
proof -
  let ?R = "decimal_runtime"
  let ?nl = "[CHR 0x0A]"
  \<comment> \<open>the controller answers \<open><<OK\<close>\<close>
  let ?c1 = "''reg coffee 107''"
  let ?p1 = "port [] [Arrive [], Arrive [], Arrive ''<<OK\<newline>'']"
  let ?a1 = "fst (flush_rx ?p1)"
  let ?b1 = "fst (uart_write (strip ?c1 @ ?nl) ?a1)"
  let ?d1 = "fst (read_loop ?R 5 [] ?b1)"
  let ?r1 = "snd (send_command ?R ?c1 5 ?p1)"
  have h1: "strip ?c1 \<noteq> [] \<and> flush_rx ?p1 = (?a1, None) \<and>
      uart_write (strip ?c1 @ ?nl) ?a1 = (?b1, Inr (length (strip ?c1 @ ?nl))) \<and>
      read_loop ?R 5 [] ?b1 = (?d1, Finished [''<<OK''] True) \<and> ?r1 = ?r1"
    by code_simp
  have ok: "(\<exists>l \<in> set [''<<OK'']. startswith l ''<<OK'' \<or> startswith l ''<<ERROR'') \<and>
      \<not> (\<exists>l \<in> set (filter is_command_response [''<<OK'']). startswith l ''<<ERROR'')"
    by code_simp
  from send_command_result_contract [THEN conjunct1, THEN mp, OF h1, THEN conjunct1] ok
  have w1: "success ?r1" by blast
  \<comment> \<open>nothing arrives\<close>
  let ?c2 = "''status''"
  let ?p2 = "port [] []"
  let ?a2 = "fst (flush_rx ?p2)"
  let ?b2 = "fst (uart_write (strip ?c2 @ ?nl) ?a2)"
  let ?d2 = "fst (read_loop ?R 5 [] ?b2)"
  let ?r2 = "snd (send_command ?R ?c2 5 ?p2)"
  have h2: "strip ?c2 \<noteq> [] \<and> flush_rx ?p2 = (?a2, None) \<and>
      uart_write (strip ?c2 @ ?nl) ?a2 = (?b2, Inr (length (strip ?c2 @ ?nl))) \<and>
      read_loop ?R 5 [] ?b2 = (?d2, Finished [] False) \<and> ?r2 = ?r2"
    by code_simp
  from send_command_result_contract [THEN conjunct1, THEN mp, OF h2, THEN conjunct2,
      THEN conjunct1]
  have w2: "\<not> success ?r2 \<and> error ?r2 = Some ''No response received''" by blast
  \<comment> \<open>the controller answers \<open><<ERROR\<close>\<close>
  let ?c3 = "''reg coffee 900''"
  let ?p3 = "port [] [Arrive [], Arrive [], Arrive ''<<ERROR bad temp\<newline>'']"
  let ?a3 = "fst (flush_rx ?p3)"
  let ?b3 = "fst (uart_write (strip ?c3 @ ?nl) ?a3)"
  let ?d3 = "fst (read_loop ?R 5 [] ?b3)"
  let ?r3 = "snd (send_command ?R ?c3 5 ?p3)"
  have h3: "strip ?c3 \<noteq> [] \<and> flush_rx ?p3 = (?a3, None) \<and>
      uart_write (strip ?c3 @ ?nl) ?a3 = (?b3, Inr (length (strip ?c3 @ ?nl))) \<and>
      read_loop ?R 5 [] ?b3 = (?d3, Finished [''<<ERROR bad temp''] True) \<and> ?r3 = ?r3"
    by code_simp
  have f3: "List.find (\<lambda>x. startswith x ''<<ERROR'')
      (filter is_command_response [''<<ERROR bad temp'']) = Some ''<<ERROR bad temp''"
    by code_simp
  from send_command_result_contract [THEN conjunct1, THEN mp, OF h3, THEN conjunct2,
      THEN conjunct2, THEN conjunct2] f3
  have w3: "\<not> success ?r3 \<and> error ?r3 = Some ''<<ERROR bad temp''" by blast
  \<comment> \<open>only telemetry arrives before the timeout\<close>
  let ?p4 = "port [] [Arrive [], Arrive [], Arrive ''T,91.2,0\<newline>'']"
  let ?a4 = "fst (flush_rx ?p4)"
  let ?b4 = "fst (uart_write (strip ?c2 @ ?nl) ?a4)"
  let ?d4 = "fst (read_loop ?R 5 [] ?b4)"
  let ?r4 = "snd (send_command ?R ?c2 5 ?p4)"
  have h4: "strip ?c2 \<noteq> [] \<and> flush_rx ?p4 = (?a4, None) \<and>
      uart_write (strip ?c2 @ ?nl) ?a4 = (?b4, Inr (length (strip ?c2 @ ?nl))) \<and>
      read_loop ?R 5 [] ?b4 = (?d4, Finished [''T,91.2,0''] False) \<and> ?r4 = ?r4"
    by code_simp
  have n4: "[''T,91.2,0''] \<noteq> [] \<and>
      \<not> (\<exists>l \<in> set [''T,91.2,0'']. startswith l ''<<OK'' \<or> startswith l ''<<ERROR'')"
    by code_simp
  from send_command_result_contract [THEN conjunct1, THEN mp, OF h4, THEN conjunct2,
      THEN conjunct2, THEN conjunct1] n4
  have w4: "\<not> success ?r4 \<and> error ?r4 = Some ''Response incomplete (timeout)''" by blast
  from w1 w2 w3 w4 show ?thesis by blast
qed

theorem send_command_response_filter_witness:
  "response (snd (send_command decimal_runtime ''status'' 5
      (port [] [Arrive [], Arrive [], Arrive ''T,91.2,0\<newline><<OK\<newline>'']))) = [''<<OK''] \<and>
   response (snd (send_command decimal_runtime ''status'' 5
      (port [] [Arrive [], Arrive [], Arrive ''T,91.2,0\<newline>'']))) = [''T,91.2,0'']"
proof -
  let ?R = "decimal_runtime"
  let ?nl = "[CHR 0x0A]"
  let ?c = "''status''"
  let ?P = "\<lambda>line. startswith line ''<<'' \<or> startswith line ''>>''"
  let ?p1 = "port [] [Arrive [], Arrive [], Arrive ''T,91.2,0\<newline><<OK\<newline>'']"
  let ?a1 = "fst (flush_rx ?p1)"
  let ?b1 = "fst (uart_write (strip ?c @ ?nl) ?a1)"
  let ?d1 = "fst (read_loop ?R 5 [] ?b1)"
  have h1: "strip ?c \<noteq> [] \<and> flush_rx ?p1 = (?a1, None) \<and>
      uart_write (strip ?c @ ?nl) ?a1 = (?b1, Inr (length (strip ?c @ ?nl))) \<and>
      read_loop ?R 5 [] ?b1 = (?d1, Finished [''T,91.2,0'', ''<<OK''] True)"
    by code_simp
  have f1: "filter ?P [''T,91.2,0'', ''<<OK''] = [''<<OK'']"
    by code_simp
  from send_command_response_filter [THEN mp, OF h1]
  have w1: "response (snd (send_command ?R ?c 5 ?p1)) = [''<<OK'']"
    by (simp only: f1) simp
  let ?p2 = "port [] [Arrive [], Arrive [], Arrive ''T,91.2,0\<newline>'']"
  let ?a2 = "fst (flush_rx ?p2)"
  let ?b2 = "fst (uart_write (strip ?c @ ?nl) ?a2)"
  let ?d2 = "fst (read_loop ?R 5 [] ?b2)"
  have h2: "strip ?c \<noteq> [] \<and> flush_rx ?p2 = (?a2, None) \<and>
      uart_write (strip ?c @ ?nl) ?a2 = (?b2, Inr (length (strip ?c @ ?nl))) \<and>
      read_loop ?R 5 [] ?b2 = (?d2, Finished [''T,91.2,0''] False)"
    by code_simp
  have f2: "filter ?P [''T,91.2,0''] = []"
    by code_simp
  from send_command_response_filter [THEN mp, OF h2]
  have w2: "response (snd (send_command ?R ?c 5 ?p2)) = [''T,91.2,0'']"
    by (simp only: f2) simp
  from w1 w2 show ?thesis by blast
qed

theorem send_command_discards_buffered_witness:
  "rxbuf (fst (flush_rx (port ''T,90.8,0\<newline>''
      [Arrive [], Arrive [], Arrive [], Arrive [], Arrive ''T,91.2,0\<newline><<OK\<newline>'']))) = [] \<and>
   snd (send_command decimal_runtime ''status'' 5 (port ''T,90.8,0\<newline>''
      [Arrive [], Arrive [], Arrive [], Arrive [], Arrive ''T,91.2,0\<newline><<OK\<newline>''])) =
   snd (send_command decimal_runtime ''status'' 5 (port []
      [Arrive [], Arrive [], Arrive ''T,91.2,0\<newline><<OK\<newline>''])) \<and>
   snd (send_command decimal_runtime ''status'' 5 (port ''T,90.8,0\<newline>''
      [Arrive [], Arrive [], Arrive [], Arrive [], Arrive ''T,91.2,0\<newline><<OK\<newline>''])) =
     \<lparr>success = True, response = [''<<OK''], error = None\<rparr>"
proof -
  let ?R = "decimal_runtime"
  let ?u = "port ''T,90.8,0\<newline>''
      [Arrive [], Arrive [], Arrive [], Arrive [], Arrive ''T,91.2,0\<newline><<OK\<newline>'']"
  let ?v = "port [] [Arrive [], Arrive [], Arrive ''T,91.2,0\<newline><<OK\<newline>'']"
  let ?u1 = "fst (flush_rx ?u)"
  let ?v1 = "fst (flush_rx ?v)"
  have fu: "flush_rx ?u = (?u1, None)" by code_simp
  have h: "flush_rx ?u = (?u1, None) \<and> flush_rx ?v = (?v1, None) \<and> feed ?u1 = feed ?v1 \<and>
      txroom ?u = txroom ?v"
    by code_simp
  from send_command_discards_buffered [THEN conjunct1, THEN mp, OF fu]
  have w1: "rxbuf ?u1 = []" by blast
  from send_command_discards_buffered [THEN conjunct2, THEN conjunct2, THEN conjunct2,
      THEN mp, OF h]
  have w2: "snd (send_command ?R ''status'' 5 ?u) = snd (send_command ?R ''status'' 5 ?v)" .
  have w3: "snd (send_command ?R ''status'' 5 ?v) =
      \<lparr>success = True, response = [''<<OK''], error = None\<rparr>"
    by code_simp
  from w1 w2 w3 show ?thesis by simp
qed

theorem send_command_transmit_first_counterexample:
  "oplog (fst (send_command decimal_runtime ''status'' 5 (port ''T,90.8,0\<newline>''
      [Arrive [], Arrive [], Arrive [], Arrive [], Arrive ''<<OK\<newline>'']))) =
     [OpAny, OpRead, OpAny, OpWrite ''status\<newline>'', OpAny, OpReadline]"
  by code_simp

section \<open>Properties of the web server\<close>

lemma split_from_nonempty: "split_from sep cur s \<noteq> []"
  by (induction sep cur s rule: split_from.induct) simp_all

lemma split_nonempty: "split s sep \<noteq> []"
  by (simp add: split_def split_from_nonempty)

lemma startswith_append: "startswith s p \<longleftrightarrow> (\<exists>post. s = p @ post)"
proof
  assume "startswith s p"
  then have "s = p @ drop (length p) s"
    unfolding startswith_def by (metis append_take_drop_id)
  then show "\<exists>post. s = p @ post" ..
next
  assume "\<exists>post. s = p @ post"
  then show "startswith s p" by (auto simp: startswith_def)
qed

lemma str_find_from_absent:
  "0 \<le> i \<Longrightarrow> str_find_from i s sub = - 1 \<longleftrightarrow> \<not> (\<exists>pre post. s = pre @ sub @ post)"
proof (induction s arbitrary: i)
  case Nil
  then show ?case by auto
next
  case (Cons c cs)
  show ?case
  proof (cases "startswith (c # cs) sub")
    case True
    then obtain post where "c # cs = [] @ sub @ post"
      by (auto simp: startswith_append)
    then have "\<exists>pre post. c # cs = pre @ sub @ post" by blast
    with True Cons.prems show ?thesis by simp
  next
    case False
    have "(\<exists>pre post. c # cs = pre @ sub @ post) \<longleftrightarrow> (\<exists>pre post. cs = pre @ sub @ post)"
    proof
      assume "\<exists>pre post. c # cs = pre @ sub @ post"
      then obtain pre post where d: "c # cs = pre @ sub @ post" by blast
      show "\<exists>pre post. cs = pre @ sub @ post"
      proof (cases pre)
        case Nil
        with d have "startswith (c # cs) sub" by (auto simp: startswith_append)
        with False show ?thesis by simp
      next
        case (Cons a pre')
        with d have "cs = pre' @ sub @ post" by simp
        then show ?thesis by blast
      qed
    next
      assume "\<exists>pre post. cs = pre @ sub @ post"
      then obtain pre post where "cs = pre @ sub @ post" by blast
      then have "c # cs = (c # pre) @ sub @ post" by simp
      then show "\<exists>pre post. c # cs = pre @ sub @ post" by blast
    qed
    moreover have "str_find_from i (c # cs) sub = str_find_from (i + 1) cs sub"
      using False by simp
    moreover have "str_find_from (i + 1) cs sub = - 1 \<longleftrightarrow> \<not> (\<exists>pre post. cs = pre @ sub @ post)"
      using Cons.IH [of "i + 1"] Cons.prems by simp
    ultimately show ?thesis by simp
  qed
qed

lemma str_find_absent:
  "str_find s sub = - 1 \<longleftrightarrow> \<not> (\<exists>pre post. s = pre @ sub @ post)"
  by (simp add: str_find_def str_find_from_absent)

lemma handle_request_route:
  assumes "parts = split (split request crlf ! 0) '' ''" and "length parts \<ge> 2"
  shows "handle_request R html timeout request u =
     (if parts ! 0 = ''GET'' \<and> parts ! 1 = ''/'' then
        (u, Some \<lparr>header_text = html_header, payload = Html html\<rparr>)
      else if parts ! 0 = ''GET'' \<and> parts ! 1 = ''/status'' then
        (fst (send_command R ''status'' timeout u),
         Some \<lparr>header_text = json_header,
               payload = Json (case parse_status R (snd (send_command R ''status'' timeout u)) of
                                 Some st \<Rightarrow> status_json st
                               | None \<Rightarrow> no_status_json)\<rparr>)
      else if parts ! 0 = ''POST'' \<and> parts ! 1 = ''/cmd'' then
        (if str_find request (crlf @ crlf) \<noteq> - 1 then
           (fst (send_command R (strip (drop (nat (str_find request (crlf @ crlf) + 4)) request))
                   timeout u),
            Some \<lparr>header_text = json_header,
                  payload = Json (cmd_json (snd (send_command R
                    (strip (drop (nat (str_find request (crlf @ crlf) + 4)) request))
                    timeout u)))\<rparr>)
         else (u, None))
      else (u, None))"
  using assms split_nonempty [of request crlf]
  by (simp add: handle_request_def Let_def split: prod.splits)

lemma json_header_200: "startswith json_header ''HTTP/1.1 200 OK''"
  by (simp add: json_header_def startswith_def)

text \<open>
  C8. For every request whose method is \<open>GET\<close> and whose path is \<open>/status\<close>, whatever
  the port does, the server sends a response whose status line is \<open>HTTP/1.1 200 OK\<close>
  and whose body is a JSON object with the members \<open>temperature\<close>, \<open>setpoint\<close>,
  \<open>duty_cycle\<close> and \<open>state\<close>; when status parsing gives no status, the body is exactly
  \<open>{temperature: null, setpoint: 0, duty_cycle: 0, state: "unknown"}\<close>.
\<close>

theorem get_status_always_200:
  "parts = split (split request crlf ! 0) '' '' \<and> length parts \<ge> 2 \<and>
   parts ! 0 = ''GET'' \<and> parts ! 1 = ''/status''
   \<longrightarrow>
     (\<exists>u' members.
        handle_request R html timeout request u =
          (u', Some \<lparr>header_text = json_header, payload = Json (JObj members)\<rparr>) \<and>
        startswith json_header ''HTTP/1.1 200 OK'' \<and>
        {''temperature'', ''setpoint'', ''duty_cycle'', ''state''} \<subseteq> set (map fst members) \<and>
        (parse_status R (snd (send_command R ''status'' timeout u)) = None \<longrightarrow>
           members = [(''temperature'', JNull), (''setpoint'', JInt 0), (''duty_cycle'', JInt 0),
                      (''state'', JStr ''unknown'')]))"
proof
  assume h: "parts = split (split request crlf ! 0) '' '' \<and> length parts \<ge> 2 \<and>
   parts ! 0 = ''GET'' \<and> parts ! 1 = ''/status''"
  let ?st = "parse_status R (snd (send_command R ''status'' timeout u))"
  let ?u' = "fst (send_command R ''status'' timeout u)"
  from h have h1: "parts = split (split request crlf ! 0) '' ''" and h2: "length parts \<ge> 2"
    and h3: "parts ! 0 = ''GET''" and h4: "parts ! 1 = ''/status''"
    by blast+
  have route: "handle_request R html timeout request u =
      (?u', Some \<lparr>header_text = json_header,
                 payload = Json (case ?st of Some st \<Rightarrow> status_json st | None \<Rightarrow> no_status_json)\<rparr>)"
    unfolding handle_request_route [OF h1 h2, of R html timeout u] using h3 h4 by simp
  show "\<exists>u' members.
        handle_request R html timeout request u =
          (u', Some \<lparr>header_text = json_header, payload = Json (JObj members)\<rparr>) \<and>
        startswith json_header ''HTTP/1.1 200 OK'' \<and>
        {''temperature'', ''setpoint'', ''duty_cycle'', ''state''} \<subseteq> set (map fst members) \<and>
        (?st = None \<longrightarrow>
           members = [(''temperature'', JNull), (''setpoint'', JInt 0), (''duty_cycle'', JInt 0),
                      (''state'', JStr ''unknown'')])"
  proof (cases ?st)
    case None
    with route have "handle_request R html timeout request u =
        (?u', Some \<lparr>header_text = json_header,
           payload = Json (JObj [(''temperature'', JNull), (''setpoint'', JInt 0),
             (''duty_cycle'', JInt 0), (''state'', JStr ''unknown'')])\<rparr>)"
      by (simp add: no_status_json_def)
    then show ?thesis
      using json_header_200 by (intro exI conjI) (assumption, simp_all)
  next
    case (Some st)
    with route have "handle_request R html timeout request u =
        (?u', Some \<lparr>header_text = json_header,
           payload = Json (JObj [(''temperature'', JFloat (temperature st)),
             (''setpoint'', JFloat (setpoint st)), (''duty_cycle'', JInt (duty_cycle st)),
             (''state'', JStr (state st)), (''raw'', JStr (raw st))])\<rparr>)"
      by (simp add: status_json_def)
    then show ?thesis
      using json_header_200 Some by (intro exI conjI) (assumption, simp_all)
  qed
qed

text \<open>
  C10. For every request whose method is \<open>POST\<close> and whose path is \<open>/cmd\<close> and whose
  text contains no \<open>CR LF CR LF\<close>, the server makes no driver call (the port is left as
  it was) and sends nothing; the same holds of a request that matches no route.
\<close>

theorem post_cmd_without_separator:
  "(parts = split (split request crlf ! 0) '' '' \<and> length parts \<ge> 2 \<and>
    parts ! 0 = ''POST'' \<and> parts ! 1 = ''/cmd'' \<and>
    \<not> (\<exists>pre post. request = pre @ crlf @ crlf @ post)
    \<longrightarrow> handle_request R html timeout request u = (u, None)) \<and>
   (parts = split (split request crlf ! 0) '' '' \<and> length parts \<ge> 2 \<and>
    \<not> (parts ! 0 = ''GET'' \<and> parts ! 1 = ''/'') \<and>
    \<not> (parts ! 0 = ''GET'' \<and> parts ! 1 = ''/status'') \<and>
    \<not> (parts ! 0 = ''POST'' \<and> parts ! 1 = ''/cmd'')
    \<longrightarrow> handle_request R html timeout request u = (u, None))"
proof (rule conjI)
  show "parts = split (split request crlf ! 0) '' '' \<and> length parts \<ge> 2 \<and>
    parts ! 0 = ''POST'' \<and> parts ! 1 = ''/cmd'' \<and>
    \<not> (\<exists>pre post. request = pre @ crlf @ crlf @ post)
    \<longrightarrow> handle_request R html timeout request u = (u, None)"
  proof
    assume h: "parts = split (split request crlf ! 0) '' '' \<and> length parts \<ge> 2 \<and>
      parts ! 0 = ''POST'' \<and> parts ! 1 = ''/cmd'' \<and>
      \<not> (\<exists>pre post. request = pre @ crlf @ crlf @ post)"
    then have "\<not> (\<exists>pre post. request = pre @ (crlf @ crlf) @ post)"
      by simp
    then have nf: "str_find request (crlf @ crlf) = - 1"
      using str_find_absent [of request "crlf @ crlf"] by blast
    from h have h1: "parts = split (split request crlf ! 0) '' ''" and h2: "length parts \<ge> 2"
      and h3: "parts ! 0 = ''POST''" and h4: "parts ! 1 = ''/cmd''"
      by blast+
    show "handle_request R html timeout request u = (u, None)"
      unfolding handle_request_route [OF h1 h2, of R html timeout u] using h3 h4 nf by simp
  qed
next
  show "parts = split (split request crlf ! 0) '' '' \<and> length parts \<ge> 2 \<and>
    \<not> (parts ! 0 = ''GET'' \<and> parts ! 1 = ''/'') \<and>
    \<not> (parts ! 0 = ''GET'' \<and> parts ! 1 = ''/status'') \<and>
    \<not> (parts ! 0 = ''POST'' \<and> parts ! 1 = ''/cmd'')
    \<longrightarrow> handle_request R html timeout request u = (u, None)"
  proof
    assume h: "parts = split (split request crlf ! 0) '' '' \<and> length parts \<ge> 2 \<and>
      \<not> (parts ! 0 = ''GET'' \<and> parts ! 1 = ''/'') \<and>
      \<not> (parts ! 0 = ''GET'' \<and> parts ! 1 = ''/status'') \<and>
      \<not> (parts ! 0 = ''POST'' \<and> parts ! 1 = ''/cmd'')"
    then have h1: "parts = split (split request crlf ! 0) '' ''" and h2: "length parts \<ge> 2"
      by blast+
    from h have no: "\<not> (parts ! 0 = ''GET'' \<and> parts ! 1 = ''/'')"
      "\<not> (parts ! 0 = ''GET'' \<and> parts ! 1 = ''/status'')"
      "\<not> (parts ! 0 = ''POST'' \<and> parts ! 1 = ''/cmd'')"
      by blast+
    show "handle_request R html timeout request u = (u, None)"
      unfolding handle_request_route [OF h1 h2, of R html timeout u] using no
      by (simp only: if_False)
  qed
qed

theorem get_status_always_200_witness:
  "snd (handle_request decimal_runtime ''<html>'' 5
      (''GET /status HTTP/1.1'' @ crlf @ ''Host: silvia'' @ crlf @ crlf) (port [] [])) =
     Some \<lparr>header_text = json_header,
           payload = Json (JObj [(''temperature'', JNull), (''setpoint'', JInt 0),
             (''duty_cycle'', JInt 0), (''state'', JStr ''unknown'')])\<rparr> \<and>
   snd (handle_request decimal_runtime ''<html>'' 5
      (''GET /status HTTP/1.1'' @ crlf @ ''Host: silvia'' @ crlf @ crlf)
      (port [] [Arrive [], Arrive [], Arrive ''T,91.2,x\<newline><<OK\<newline>''])) =
     Some \<lparr>header_text = json_header,
           payload = Json (JObj [(''temperature'', JNull), (''setpoint'', JInt 0),
             (''duty_cycle'', JInt 0), (''state'', JStr ''unknown'')])\<rparr>"
proof -
  let ?R = "decimal_runtime"
  let ?req = "''GET /status HTTP/1.1'' @ crlf @ ''Host: silvia'' @ crlf @ crlf"
  let ?parts = "[''GET'', ''/status'', ''HTTP/1.1'']"
  let ?p1 = "port [] []"
  let ?p2 = "port [] [Arrive [], Arrive [], Arrive ''T,91.2,x\<newline><<OK\<newline>'']"
  let ?none = "[(''temperature'', JNull), (''setpoint'', JInt 0), (''duty_cycle'', JInt 0),
      (''state'', JStr ''unknown'')] :: (string \<times> rat json) list"
  have h: "?parts = split (split ?req crlf ! 0) '' '' \<and> length ?parts \<ge> 2 \<and>
      ?parts ! 0 = ''GET'' \<and> ?parts ! 1 = ''/status''"
    by code_simp
  have n1: "parse_status ?R (snd (send_command ?R ''status'' 5 ?p1)) = None"
    by code_simp
  have n2: "parse_status ?R (snd (send_command ?R ''status'' 5 ?p2)) = None"
    by code_simp
  from get_status_always_200 [of ?parts ?req ?R "''<html>''" 5 ?p1, THEN mp, OF h] n1
  obtain u1 where "handle_request ?R ''<html>'' 5 ?req ?p1 =
      (u1, Some \<lparr>header_text = json_header, payload = Json (JObj ?none)\<rparr>)"
    by blast
  then have w1: "snd (handle_request ?R ''<html>'' 5 ?req ?p1) =
      Some \<lparr>header_text = json_header, payload = Json (JObj ?none)\<rparr>"
    by simp
  from get_status_always_200 [of ?parts ?req ?R "''<html>''" 5 ?p2, THEN mp, OF h] n2
  obtain u2 where "handle_request ?R ''<html>'' 5 ?req ?p2 =
      (u2, Some \<lparr>header_text = json_header, payload = Json (JObj ?none)\<rparr>)"
    by blast
  then have w2: "snd (handle_request ?R ''<html>'' 5 ?req ?p2) =
      Some \<lparr>header_text = json_header, payload = Json (JObj ?none)\<rparr>"
    by simp
  from w1 w2 show ?thesis by blast
qed

theorem post_cmd_without_separator_witness:
  "handle_request decimal_runtime ''<html>'' 5
     (''POST /cmd HTTP/1.1'' @ crlf @ ''Content-Length: 14'' @ crlf)
     (port [] [Arrive [], Arrive [], Arrive ''<<OK\<newline>'']) =
     (port [] [Arrive [], Arrive [], Arrive ''<<OK\<newline>''], None) \<and>
   handle_request decimal_runtime ''<html>'' 5
     (''DELETE /cmd HTTP/1.1'' @ crlf @ crlf)
     (port [] [Arrive [], Arrive [], Arrive ''<<OK\<newline>'']) =
     (port [] [Arrive [], Arrive [], Arrive ''<<OK\<newline>''], None)"
proof -
  let ?R = "decimal_runtime"
  let ?req = "''POST /cmd HTTP/1.1'' @ crlf @ ''Content-Length: 14'' @ crlf"
  let ?parts = "[''POST'', ''/cmd'', ''HTTP/1.1'']"
  let ?p = "port [] [Arrive [], Arrive [], Arrive ''<<OK\<newline>'']"
  have f: "str_find ?req (crlf @ crlf) = - 1"
    by code_simp
  then have "\<not> (\<exists>pre post. ?req = pre @ (crlf @ crlf) @ post)"
    using str_find_absent [of ?req "crlf @ crlf"] by blast
  then have absent: "\<not> (\<exists>pre post. ?req = pre @ crlf @ crlf @ post)"
    by simp
  have r: "?parts = split (split ?req crlf ! 0) '' '' \<and> length ?parts \<ge> 2 \<and>
      ?parts ! 0 = ''POST'' \<and> ?parts ! 1 = ''/cmd''"
    by code_simp
  from r absent
  have h: "?parts = split (split ?req crlf ! 0) '' '' \<and> length ?parts \<ge> 2 \<and>
      ?parts ! 0 = ''POST'' \<and> ?parts ! 1 = ''/cmd'' \<and>
      \<not> (\<exists>pre post. ?req = pre @ crlf @ crlf @ post)"
    by blast
  have w1: "handle_request ?R ''<html>'' 5 ?req ?p = (?p, None)"
    using post_cmd_without_separator [of ?parts ?req ?R "''<html>''" 5 ?p, THEN conjunct1,
        THEN mp, OF h] .
  let ?req2 = "''DELETE /cmd HTTP/1.1'' @ crlf @ crlf"
  let ?parts2 = "[''DELETE'', ''/cmd'', ''HTTP/1.1'']"
  have h2: "?parts2 = split (split ?req2 crlf ! 0) '' '' \<and> length ?parts2 \<ge> 2 \<and>
      \<not> (?parts2 ! 0 = ''GET'' \<and> ?parts2 ! 1 = ''/'') \<and>
      \<not> (?parts2 ! 0 = ''GET'' \<and> ?parts2 ! 1 = ''/status'') \<and>
      \<not> (?parts2 ! 0 = ''POST'' \<and> ?parts2 ! 1 = ''/cmd'')"
    by code_simp
  have w2: "handle_request ?R ''<html>'' 5 ?req2 ?p = (?p, None)"
    using post_cmd_without_separator [of ?parts2 ?req2 ?R "''<html>''" 5 ?p, THEN conjunct2,
        THEN mp, OF h2] .
  from w1 w2 show ?thesis by blast
qed

end
